theory Spec2Isabelle
  imports Main "HOL-Library.Word"
begin

section \<open>Values of the Go runtime and of the standard library\<close>

text \<open>
  The program is \<^verbatim>\<open>main.go\<close>: a reverse proxy that keeps the responses to GET requests in
  a map guarded by a read/write mutex. Every region between \<^verbatim>\<open>Lock\<close>/\<^verbatim>\<open>RLock\<close> and the
  matching unlock is one step of the model, so the mutex itself has no field. A clock reading
  (\<^verbatim>\<open>time.Now()\<close>) and a duration are integers of nanoseconds; \<^verbatim>\<open>t.Add(d)\<close> is addition and
  \<^verbatim>\<open>t.After(u)\<close> is \<open>u < t\<close> (the saturation of \<^verbatim>\<open>Add\<close> at the ends of the representable
  range is outside the model). Each call of \<^verbatim>\<open>time.Now()\<close> is an input of its own.
\<close>

type_synonym byte = "8 word"
type_synonym Time = int
type_synonym Duration = int

subsection \<open>Header maps\<close>

text \<open>
  \<^verbatim>\<open>http.Header\<close> is \<^verbatim>\<open>map[string][]string\<close>, a reference: two variables may name the same
  map, and \<^verbatim>\<open>Add\<close> through one is seen through the other. A header value is therefore a
  reference into a store of maps; \<^verbatim>\<open>Clone\<close> and \<^verbatim>\<open>make\<close> allocate.
\<close>

type_synonym MIMEHeader = "string \<rightharpoonup> string list"
type_synonym ref = nat

record store =
  cells :: "ref \<Rightarrow> MIMEHeader"
  fresh :: ref

text \<open>Go's index expression \<^verbatim>\<open>m[k]\<close>: the nil slice when the key is absent.\<close>

definition index :: "MIMEHeader \<Rightarrow> string \<Rightarrow> string list" where
  "index m k = (case m k of None \<Rightarrow> [] | Some vv \<Rightarrow> vv)"

text \<open>
  \<^verbatim>\<open>textproto.CanonicalMIMEHeaderKey\<close>, which \<^verbatim>\<open>Add\<close>, \<^verbatim>\<open>Set\<close> and \<^verbatim>\<open>Del\<close> apply to their
  key: a key holding a byte that is not a header field byte is returned as it is; otherwise
  the first letter and every letter after a hyphen become upper case, the others lower case.
\<close>

definition validHeaderFieldByte :: "char \<Rightarrow> bool" where
  "validHeaderFieldByte ch =
     (let n = (of_char ch :: nat) in
        (48 \<le> n \<and> n \<le> 57) \<or> (97 \<le> n \<and> n \<le> 122) \<or> (65 \<le> n \<and> n \<le> 90) \<or>
        n \<in> set [33, 35, 36, 37, 38, 39, 42, 43, 45, 46, 94, 95, 96, 124, 126])"

fun canonical_from :: "bool \<Rightarrow> string \<Rightarrow> string" where
  "canonical_from upper [] = []"
| "canonical_from upper (ch # cs) =
     (let n = (of_char ch :: nat);
          ch' = (if upper \<and> 97 \<le> n \<and> n \<le> 122 then char_of (n - 32)
                 else if \<not> upper \<and> 65 \<le> n \<and> n \<le> 90 then char_of (n + 32)
                 else ch)
      in ch' # canonical_from (ch' = CHR ''-'') cs)"

definition CanonicalMIMEHeaderKey :: "string \<Rightarrow> string" where
  "CanonicalMIMEHeaderKey s =
     (if list_all validHeaderFieldByte s then canonical_from True s else s)"

definition MIMEHeader_Add :: "MIMEHeader \<Rightarrow> string \<Rightarrow> string \<Rightarrow> MIMEHeader" where
  "MIMEHeader_Add m key v =
     (let k = CanonicalMIMEHeaderKey key in m(k \<mapsto> index m k @ [v]))"

definition MIMEHeader_Set :: "MIMEHeader \<Rightarrow> string \<Rightarrow> string \<Rightarrow> MIMEHeader" where
  "MIMEHeader_Set m key v = m(CanonicalMIMEHeaderKey key \<mapsto> [v])"

definition MIMEHeader_Del :: "MIMEHeader \<Rightarrow> string \<Rightarrow> MIMEHeader" where
  "MIMEHeader_Del m key = m(CanonicalMIMEHeaderKey key := None)"

definition Header_Add :: "store \<Rightarrow> ref \<Rightarrow> string \<Rightarrow> string \<Rightarrow> store" where
  "Header_Add hp h key v = hp\<lparr>cells := (cells hp)(h := MIMEHeader_Add (cells hp h) key v)\<rparr>"

definition Header_Set :: "store \<Rightarrow> ref \<Rightarrow> string \<Rightarrow> string \<Rightarrow> store" where
  "Header_Set hp h key v = hp\<lparr>cells := (cells hp)(h := MIMEHeader_Set (cells hp h) key v)\<rparr>"

text \<open>A new map holding \<open>m\<close> (\<^verbatim>\<open>make\<close>, or the map the transport builds for a response).\<close>

definition make_Header :: "store \<Rightarrow> MIMEHeader \<Rightarrow> ref \<times> store" where
  "make_Header hp m = (fresh hp, hp\<lparr>cells := (cells hp)(fresh hp := m), fresh := Suc (fresh hp)\<rparr>)"

definition Header_Clone :: "store \<Rightarrow> ref \<Rightarrow> ref \<times> store" where
  "Header_Clone hp h = make_Header hp (cells hp h)"

subsection \<open>Requests, body streams, responses, response writers\<close>

record request =
  Method :: string
  RequestURI :: string
  Host :: string
  URL_Scheme :: string
  URL_Host :: string
  ReqHeader :: MIMEHeader

definition MethodGet :: string where
  "MethodGet = ''GET''"

text \<open>
  An \<^verbatim>\<open>io.ReadCloser\<close>: the bytes it still yields, the error that ends the reading (\<open>None\<close>
  is \<^verbatim>\<open>io.EOF\<close>) and the error of \<^verbatim>\<open>Close\<close>. \<^verbatim>\<open>io.ReadAll\<close> returns the bytes read and the
  error, and leaves the stream drained.
\<close>

record ReadCloser =
  pending :: "byte list"
  read_err :: "string option"
  close_err :: "string option"

definition ReadAll :: "ReadCloser \<Rightarrow> byte list \<times> string option \<times> ReadCloser" where
  "ReadAll rc = (pending rc, read_err rc, rc\<lparr>pending := []\<rparr>)"

definition Close :: "ReadCloser \<Rightarrow> string option" where
  "Close rc = close_err rc"

text \<open>\<^verbatim>\<open>io.NopCloser(bytes.NewReader(b))\<close>.\<close>

definition NopCloser :: "byte list \<Rightarrow> ReadCloser" where
  "NopCloser b = \<lparr>pending = b, read_err = None, close_err = None\<rparr>"

record response =
  Request :: request
  StatusCode :: int
  Header :: ref
  Body :: ReadCloser

text \<open>
  An \<^verbatim>\<open>http.ResponseWriter\<close> records what the handler hands to it: the header map behind
  \<^verbatim>\<open>Header()\<close>, the status of the first \<^verbatim>\<open>WriteHeader\<close>, the bytes given to \<^verbatim>\<open>Write\<close>.
  \<open>wErr\<close> is the error the client connection returns to \<^verbatim>\<open>Write\<close>.
\<close>

record ResponseWriter =
  wHeader :: ref
  wStatus :: "int option"
  wBody :: "byte list"
  wErr :: "string option"

definition WriteHeader :: "ResponseWriter \<Rightarrow> int \<Rightarrow> ResponseWriter" where
  "WriteHeader w code = (if wStatus w = None then w\<lparr>wStatus := Some code\<rparr> else w)"

definition Write :: "ResponseWriter \<Rightarrow> byte list \<Rightarrow> ResponseWriter \<times> string option" where
  "Write w b = ((WriteHeader w 200)\<lparr>wBody := wBody w @ b\<rparr>, wErr w)"

section \<open>The program\<close>

definition XCacheMiss :: string where
  "XCacheMiss = ''MISS''"

definition XCacheHit :: string where
  "XCacheHit = ''HIT''"

record cacheData =
  header :: ref
  body :: "byte list"
  age :: Time
  status :: int

record cache =
  data :: "string \<rightharpoonup> cacheData"
  ttl :: Duration

definition newCache :: "Duration \<Rightarrow> cache" where
  "newCache t = \<lparr>data = Map.empty, ttl = t\<rparr>"

text \<open>
  The proxy of \<^verbatim>\<open>newReverseProxy\<close>: the parsed target, which its \<^verbatim>\<open>Director\<close> closure
  holds, and whether \<^verbatim>\<open>ModifyResponse\<close> is set. The only function ever assigned to it is the
  closure of \<^verbatim>\<open>handleMissedCache\<close>, so a flag stands for the field.
\<close>

record ReverseProxy =
  target_Scheme :: string
  target_Host :: string
  ModifyResponse :: bool

definition newReverseProxy :: "string \<Rightarrow> string \<Rightarrow> ReverseProxy" where
  "newReverseProxy scheme host = \<lparr>target_Scheme = scheme, target_Host = host, ModifyResponse = False\<rparr>"

definition Director :: "ReverseProxy \<Rightarrow> request \<Rightarrow> request" where
  "Director rp req =
     req\<lparr>URL_Scheme := target_Scheme rp,
         URL_Host := target_Host rp,
         Host := target_Host rp,
         ReqHeader := MIMEHeader_Del (ReqHeader req) ''X-Forwarded-For''\<rparr>"

text \<open>
  What the program does to the world, in order: the accesses to \<^verbatim>\<open>c.data\<close> with their key,
  the lines it logs, and the requests it hands to the upstream.
\<close>

datatype effect =
  CacheLookup string
  | CacheStore string
  | CacheDelete string
  | LogPrintf string
  | Forward request

record state =
  run_c :: cache
  run_rp :: ReverseProxy
  heap :: store
  trace :: "effect list"

text \<open>
  \<^verbatim>\<open>isCacheStale\<close> is \<^verbatim>\<open>time.Now().After(a.Add(ttl))\<close>; its first argument here is the
  reading that \<^verbatim>\<open>time.Now()\<close> returns.
\<close>

definition Time_Add :: "Time \<Rightarrow> Duration \<Rightarrow> Time" where
  "Time_Add t d = t + d"

definition Time_After :: "Time \<Rightarrow> Time \<Rightarrow> bool" where
  "Time_After t u = (u < t)"

definition isCacheStale :: "Time \<Rightarrow> Time \<Rightarrow> Duration \<Rightarrow> bool" where
  "isCacheStale now a t = Time_After now (Time_Add a t)"

text \<open>Lines 170 to 177 of \<^verbatim>\<open>saveCacheData\<close>: the assignment under the write lock.\<close>

definition Store :: "string \<Rightarrow> cacheData \<Rightarrow> state \<Rightarrow> state" where
  "Store key e s =
     s\<lparr>run_c := (run_c s)\<lparr>data := (data (run_c s))(key \<mapsto> e)\<rparr>,
       trace := trace s @ [CacheStore key]\<rparr>"

definition saveCacheData ::
  "response \<Rightarrow> string \<Rightarrow> Time \<Rightarrow> state \<Rightarrow> string option \<times> response \<times> state" where
  "saveCacheData res xCacheValue now s =
     (let key = RequestURI (Request res);
          (b, err, rc) = ReadAll (Body res)
      in case err of
           Some e \<Rightarrow> (Some e, res\<lparr>Body := rc\<rparr>, s)
         | None \<Rightarrow>
             (case Close rc of
                Some e \<Rightarrow> (Some e, res\<lparr>Body := rc\<rparr>, s)
              | None \<Rightarrow>
                  let res1 = res\<lparr>Body := NopCloser b\<rparr>;
                      (h, hp1) = Header_Clone (heap s) (Header res1);
                      s1 = Store key \<lparr>header = h, body = b, age = now, status = StatusCode res1\<rparr>
                             (s\<lparr>heap := hp1\<rparr>);
                      s2 = s1\<lparr>heap := Header_Add (heap s1) (Header res1) ''X-Cache'' xCacheValue\<rparr>
                  in (None, res1, s2)))"

text \<open>The closure that \<^verbatim>\<open>handleMissedCache\<close> assigns to \<^verbatim>\<open>rp.ModifyResponse\<close>.\<close>

definition ModifyResponse_closure ::
  "response \<Rightarrow> Time \<Rightarrow> state \<Rightarrow> string option \<times> response \<times> state" where
  "ModifyResponse_closure res now s =
     (if Method (Request res) \<noteq> MethodGet then (None, res, s)
      else
        let (err, res1, s1) = saveCacheData res XCacheMiss now s
        in case err of
             Some e \<Rightarrow>
               (None, res1, s1\<lparr>trace := trace s1 @ [LogPrintf (''error while saving stale cache '' @ e)]\<rparr>)
           | None \<Rightarrow> (None, res1, s1))"

definition handleMissedCache :: "state \<Rightarrow> state" where
  "handleMissedCache s = s\<lparr>run_rp := (run_rp s)\<lparr>ModifyResponse := True\<rparr>\<rparr>"

text \<open>
  The loop \<^verbatim>\<open>for k, vv := range src { for _, v := range vv { dst.Add(k, v) } }\<close>, which
  \<^verbatim>\<open>writeToResponseCacheHit\<close> runs over \<^verbatim>\<open>d.header\<close> and the proxy runs over the upstream
  header. \<open>ks\<close> is the order in which \<^verbatim>\<open>range\<close> visits the keys, which Go leaves open.
\<close>

fun add_values :: "store \<Rightarrow> ref \<Rightarrow> string \<Rightarrow> string list \<Rightarrow> store" where
  "add_values hp dst k [] = hp"
| "add_values hp dst k (v # vv) = add_values (Header_Add hp dst k v) dst k vv"

fun copyHeader :: "string list \<Rightarrow> ref \<Rightarrow> ref \<Rightarrow> store \<Rightarrow> store" where
  "copyHeader [] dst src hp = hp"
| "copyHeader (k # ks) dst src hp =
     (case cells hp src k of
        None \<Rightarrow> copyHeader ks dst src hp
      | Some vv \<Rightarrow> copyHeader ks dst src (add_values hp dst k vv))"

definition writeToResponseCacheHit ::
  "string list \<Rightarrow> ResponseWriter \<Rightarrow> cacheData \<Rightarrow> state \<Rightarrow> ResponseWriter \<times> state" where
  "writeToResponseCacheHit ks w d s =
     (let hp1 = copyHeader ks (wHeader w) (header d) (heap s);
          hp2 = Header_Set hp1 (wHeader w) ''X-Cache'' XCacheHit;
          w1 = WriteHeader w (status d);
          (w2, err) = Write w1 (body d);
          s1 = s\<lparr>heap := hp2\<rparr>
      in case err of
           Some e \<Rightarrow> (w2, s1\<lparr>trace := trace s1 @ [LogPrintf (''can't write to body '' @ e)]\<rparr>)
         | None \<Rightarrow> (w2, s1))"

subsection \<open>The forwarder\<close>

text \<open>
  \<^verbatim>\<open>httputil.ReverseProxy.ServeHTTP\<close> belongs to the standard library. Its part in the
  program: it applies the \<^verbatim>\<open>Director\<close> to a copy of the request, sends it, and on a response
  calls \<^verbatim>\<open>ModifyResponse\<close> when that is set; an error from there, or from the transport, goes
  to the error handler (502); otherwise the header, the status and the body of the response
  are copied to the writer. What the upstream does is an input.
\<close>

datatype upstream =
  RoundTripError string
  | RoundTripResponse int MIMEHeader ReadCloser

record env =
  now_lookup :: Time
  hit_order :: "string list"
  upstream :: upstream
  now_capture :: Time
  relay_order :: "string list"
  write_err :: "string option"

definition ErrorHandler :: "ResponseWriter \<Rightarrow> string \<Rightarrow> state \<Rightarrow> ResponseWriter \<times> state" where
  "ErrorHandler w msg s =
     (WriteHeader w 502, s\<lparr>trace := trace s @ [LogPrintf (''http: proxy error: '' @ msg)]\<rparr>)"

definition ServeHTTP :: "ResponseWriter \<Rightarrow> request \<Rightarrow> env \<Rightarrow> state \<Rightarrow> ResponseWriter \<times> state" where
  "ServeHTTP w r e s =
     (let outreq = Director (run_rp s) r;
          s1 = s\<lparr>trace := trace s @ [Forward outreq]\<rparr>
      in case upstream e of
           RoundTripError msg \<Rightarrow> ErrorHandler w msg s1
         | RoundTripResponse code hdr rc \<Rightarrow>
             let (h, hp1) = make_Header (heap s1) hdr;
                 res = \<lparr>Request = outreq, StatusCode = code, Header = h, Body = rc\<rparr>;
                 s2 = s1\<lparr>heap := hp1\<rparr>;
                 (err, res1, s3) =
                   (if ModifyResponse (run_rp s2) then ModifyResponse_closure res (now_capture e) s2
                    else (None, res, s2))
             in (case err of
                   Some msg \<Rightarrow> ErrorHandler w msg s3
                 | None \<Rightarrow>
                     (let hp4 = copyHeader (relay_order e) (wHeader w) (Header res1) (heap s3);
                          w1 = WriteHeader w (StatusCode res1);
                          (b, rerr, rc1) = ReadAll (Body res1);
                          (w2, werr) = Write w1 b
                      in (w2, s3\<lparr>heap := hp4\<rparr>))))"

subsection \<open>The request handler and the cleanup worker\<close>

text \<open>The function that \<^verbatim>\<open>run\<close> registers with \<^verbatim>\<open>http.HandleFunc\<close>.\<close>

definition handler :: "ResponseWriter \<Rightarrow> request \<Rightarrow> env \<Rightarrow> state \<Rightarrow> ResponseWriter \<times> state" where
  "handler w r e s =
     (if Method r = MethodGet then
        let s1 = s\<lparr>trace := trace s @ [CacheLookup (RequestURI r)]\<rparr> in
        (case data (run_c s) (RequestURI r) of
           Some d \<Rightarrow>
             if \<not> isCacheStale (now_lookup e) (age d) (ttl (run_c s))
             then writeToResponseCacheHit (hit_order e) w d s1
             else ServeHTTP w r e (handleMissedCache s1)
         | None \<Rightarrow> ServeHTTP w r e (handleMissedCache s1))
      else ServeHTTP w r e s)"

text \<open>The server gives every request a writer of its own, with an empty header map.\<close>

definition serve :: "request \<Rightarrow> env \<Rightarrow> state \<Rightarrow> ResponseWriter \<times> state" where
  "serve r e s =
     (let (h, hp1) = make_Header (heap s) Map.empty;
          w = \<lparr>wHeader = h, wStatus = None, wBody = [], wErr = write_err e\<rparr>
      in handler w r e (s\<lparr>heap := hp1\<rparr>))"

text \<open>
  \<^verbatim>\<open>cleanup\<close>: one pass over \<^verbatim>\<open>c.data\<close> under the write lock. Each visit is a key together
  with the clock reading that \<^verbatim>\<open>isCacheStale\<close> takes for it.
\<close>

fun cleanup_range :: "Duration \<Rightarrow> (string \<times> Time) list \<Rightarrow> state \<Rightarrow> state" where
  "cleanup_range t [] s = s"
| "cleanup_range t ((key, now) # visits) s =
     (case data (run_c s) key of
        None \<Rightarrow> cleanup_range t visits s
      | Some d \<Rightarrow>
          if isCacheStale now (age d) t
          then cleanup_range t visits
                 (s\<lparr>run_c := (run_c s)\<lparr>data := (data (run_c s))(key := None)\<rparr>,
                    trace := trace s @ [CacheDelete key, LogPrintf (''deleted cache with key: '' @ key)]\<rparr>)
          else cleanup_range t visits s)"

definition cleanup :: "Duration \<Rightarrow> (string \<times> Time) list \<Rightarrow> state \<Rightarrow> state" where
  "cleanup t visits s =
     (let s1 = cleanup_range t visits s
      in s1\<lparr>trace := trace s1 @ [LogPrintf ''cache cleanup completed'']\<rparr>)"

text \<open>The state in which \<^verbatim>\<open>run\<close> starts to serve.\<close>

definition run_init :: "Duration \<Rightarrow> state" where
  "run_init t =
     \<lparr>run_c = newCache t,
      run_rp = newReverseProxy ''https'' ''dummyjson.com'',
      heap = \<lparr>cells = (\<lambda>_. Map.empty), fresh = 0\<rparr>,
      trace = []\<rparr>"

section \<open>Predicates of the statements\<close>

text \<open>
  The keys of a header map that the transport delivers went through
  \<^verbatim>\<open>CanonicalMIMEHeaderKey\<close> when the response was read, and it leaves its own results as
  they are.
\<close>

definition canonical_keys :: "MIMEHeader \<Rightarrow> bool" where
  "canonical_keys m = (\<forall>k \<in> dom m. CanonicalMIMEHeaderKey k = k)"

text \<open>One character of the canonical form, as \<open>canonical_from\<close> computes it.\<close>

definition canonical_char :: "bool \<Rightarrow> char \<Rightarrow> char" where
  "canonical_char upper ch =
     (let n = (of_char ch :: nat)
      in if upper \<and> 97 \<le> n \<and> n \<le> 122 then char_of (n - 32)
         else if \<not> upper \<and> 65 \<le> n \<and> n \<le> 90 then char_of (n + 32)
         else ch)"

text \<open>An order in which \<^verbatim>\<open>range\<close> may visit a map: every key once.\<close>

definition range_order :: "'k list \<Rightarrow> ('k \<rightharpoonup> 'v) \<Rightarrow> bool" where
  "range_order ks m = (distinct ks \<and> set ks = dom m)"

text \<open>
  What the handler's test \<^verbatim>\<open>ok && !isCacheStale(d.age, c.ttl)\<close> rejects: no entry under the
  key, or a stale one.
\<close>

definition missed :: "state \<Rightarrow> request \<Rightarrow> Time \<Rightarrow> bool" where
  "missed s r now =
     (case data (run_c s) (RequestURI r) of
        None \<Rightarrow> True
      | Some d \<Rightarrow> isCacheStale now (age d) (ttl (run_c s)))"

text \<open>The requests handed to the upstream, and the keys of the accesses to \<^verbatim>\<open>c.data\<close>.\<close>

fun forwarded :: "effect list \<Rightarrow> request list" where
  "forwarded [] = []"
| "forwarded (Forward q # evs) = q # forwarded evs"
| "forwarded (ev # evs) = forwarded evs"

fun accessed :: "effect list \<Rightarrow> string list" where
  "accessed [] = []"
| "accessed (CacheLookup k # evs) = k # accessed evs"
| "accessed (CacheStore k # evs) = k # accessed evs"
| "accessed (CacheDelete k # evs) = k # accessed evs"
| "accessed (ev # evs) = accessed evs"

text \<open>
  The store after a capture of a response whose header map \<open>hdr\<close> was allocated last: the
  live map carries the added tag, the clone does not.
\<close>

definition captured_heap :: "store \<Rightarrow> MIMEHeader \<Rightarrow> store" where
  "captured_heap hp hdr =
     \<lparr>cells = (cells hp)(fresh hp := MIMEHeader_Add hdr ''X-Cache'' XCacheMiss, Suc (fresh hp) := hdr),
      fresh = Suc (Suc (fresh hp))\<rparr>"

text \<open>
  What the forwarder hands to \<^verbatim>\<open>ModifyResponse\<close> for a response of the upstream, and what
  comes back: the part of \<open>ServeHTTP\<close> between the round trip and the relaying.
\<close>

definition call_ModifyResponse ::
  "request \<Rightarrow> env \<Rightarrow> int \<Rightarrow> MIMEHeader \<Rightarrow> ReadCloser \<Rightarrow> state \<Rightarrow>
   string option \<times> response \<times> state" where
  "call_ModifyResponse r e code hdr rc s =
     (let res = \<lparr>Request = Director (run_rp s) r, StatusCode = code, Header = fresh (heap s),
                 Body = rc\<rparr>;
          s2 = s\<lparr>trace := trace s @ [Forward (Director (run_rp s) r)],
                 heap := snd (make_Header (heap s) hdr)\<rparr>
      in if ModifyResponse (run_rp s) then ModifyResponse_closure res (now_capture e) s2
         else (None, res, s2))"

subsection \<open>Runs\<close>

text \<open>
  The server handles requests one after the other in this model, and the ticker of
  \<^verbatim>\<open>startCleanupWorker\<close> calls \<^verbatim>\<open>cleanup\<close> in between, with the time to live that
  \<^verbatim>\<open>getTTL\<close> returned, which is the one the cache was built with.
\<close>

datatype op = Serve request env | Sweep "(string \<times> Time) list"

fun step :: "op \<Rightarrow> state \<Rightarrow> state" where
  "step (Serve r e) s = snd (serve r e s)"
| "step (Sweep visits) s = cleanup (ttl (run_c s)) visits s"

definition run_ops :: "op list \<Rightarrow> state \<Rightarrow> state" where
  "run_ops ops s = fold step ops s"


text \<open>
  The upstream header maps have canonical keys, and so have the snapshots in the cache,
  each of which the store has allocated.
\<close>

definition canonical_upstream :: "upstream \<Rightarrow> bool" where
  "canonical_upstream u =
     (case u of RoundTripError msg \<Rightarrow> True | RoundTripResponse code hdr rc \<Rightarrow> canonical_keys hdr)"

fun canonical_op :: "op \<Rightarrow> bool" where
  "canonical_op (Serve r e) = canonical_upstream (upstream e)"
| "canonical_op (Sweep visits) = True"

definition cache_ok :: "state \<Rightarrow> bool" where
  "cache_ok s = (\<forall>k d. data (run_c s) k = Some d \<longrightarrow>
             header d < fresh (heap s) \<and> canonical_keys (cells (heap s) (header d)))"

section \<open>Concrete runs\<close>

text \<open>
  A time to live of one hour, in nanoseconds; a request; an upstream that answers 200 with
  one header and two bytes; and the inputs of a request served at clock reading \<open>t\<close>.
\<close>

definition ex_hour :: Duration where
  "ex_hour = 3600000000000"

definition ex_request :: "string \<Rightarrow> string \<Rightarrow> request" where
  "ex_request m uri =
     \<lparr>Method = m, RequestURI = uri, Host = ''localhost:8080'', URL_Scheme = [], URL_Host = [],
      ReqHeader = Map.empty\<rparr>"

definition ex_header :: MIMEHeader where
  "ex_header = [''Content-Type'' \<mapsto> [''text/plain'']]"

definition ex_body :: "byte list" where
  "ex_body = [104, 105]"

definition ex_upstream :: upstream where
  "ex_upstream = RoundTripResponse 200 ex_header (NopCloser ex_body)"

definition ex_env :: "Time \<Rightarrow> upstream \<Rightarrow> env" where
  "ex_env t up =
     \<lparr>now_lookup = t, hit_order = [''Content-Type''], upstream = up, now_capture = t,
      relay_order = [''Content-Type'', ''X-Cache''], write_err = None\<rparr>"

text \<open>
  Two requests, 5 and 6 microseconds after the start, against a cache whose time to live is
  one hour; and a cleanup pass that looks at the first entry one hour and 5 microseconds
  after the start and at the second 2 microseconds later.
\<close>

definition ex_two :: state where
  "ex_two =
     snd (serve (ex_request ''GET'' ''/c'') (ex_env 6000 ex_upstream)
       (snd (serve (ex_request ''GET'' ''/b'') (ex_env 5000 ex_upstream) (run_init ex_hour))))"

definition ex_visits :: "(string \<times> Time) list" where
  "ex_visits = [(''/b'', ex_hour + 5000), (''/c'', ex_hour + 7000)]"

text \<open>A pass two hours after the start, and one after 100 microseconds.\<close>

definition ex_late :: "(string \<times> Time) list" where
  "ex_late = [(''/b'', 2 * ex_hour), (''/c'', 2 * ex_hour + 1000)]"

definition ex_early :: "(string \<times> Time) list" where
  "ex_early = [(''/b'', 100000), (''/c'', 101000)]"

text \<open>
  The state inside the forwarder after the two requests, when a third response has arrived:
  the writer's header map is cell 6, the header map of the response is cell 7. A response
  for \<^verbatim>\<open>GET /b\<close> with a given body, and a body whose reading breaks off.
\<close>

definition ex_live :: state where
  "ex_live = ex_two\<lparr>heap := snd (make_Header (snd (make_Header (heap ex_two) Map.empty)) ex_header)\<rparr>"

definition ex_response :: "ReadCloser \<Rightarrow> response" where
  "ex_response rc =
     \<lparr>Request = Director (run_rp ex_two) (ex_request ''GET'' ''/b''), StatusCode = 404,
      Header = 7, Body = rc\<rparr>"


text \<open>
  An upstream that is itself a cache and tags its responses.
\<close>

definition ex_tagged_upstream :: upstream where
  "ex_tagged_upstream = RoundTripResponse 200 [''X-Cache'' \<mapsto> [''HIT'']] (NopCloser ex_body)"

definition ex_tagged_env :: env where
  "ex_tagged_env =
     \<lparr>now_lookup = 0, hit_order = [''X-Cache''], upstream = ex_tagged_upstream, now_capture = 0,
      relay_order = [''X-Cache''], write_err = None\<rparr>"


section \<open>Header maps in the store\<close>

lemma isCacheStale_iff: "isCacheStale now a t \<longleftrightarrow> a + t < now"
  by (simp add: isCacheStale_def Time_After_def Time_Add_def)

lemma canon_XCache: "CanonicalMIMEHeaderKey ''X-Cache'' = ''X-Cache''"
  by (simp add: CanonicalMIMEHeaderKey_def validHeaderFieldByte_def)

lemma canonical_from_Cons:
  "canonical_from upper (ch # cs) =
     canonical_char upper ch # canonical_from (canonical_char upper ch = CHR ''-'') cs"
  by (simp add: canonical_char_def Let_def)

lemma canonical_char_upper:
  "canonical_char True ch =
     (if 97 \<le> (of_char ch :: nat) \<and> (of_char ch :: nat) \<le> 122
      then char_of ((of_char ch :: nat) - 32) else ch)"
  by (simp add: canonical_char_def Let_def)

lemma canonical_char_lower:
  "canonical_char False ch =
     (if 65 \<le> (of_char ch :: nat) \<and> (of_char ch :: nat) \<le> 90
      then char_of ((of_char ch :: nat) + 32) else ch)"
  by (simp add: canonical_char_def Let_def)

lemma of_char_upper:
  assumes "97 \<le> (of_char ch :: nat)" and "(of_char ch :: nat) \<le> 122"
  shows "(of_char (canonical_char True ch) :: nat) = of_char ch - 32"
proof -
  have "((of_char ch :: nat) - 32) mod 256 = of_char ch - 32"
    using assms by (intro mod_less) linarith
  with assms show ?thesis by (simp add: canonical_char_upper)
qed

lemma of_char_lower:
  assumes "65 \<le> (of_char ch :: nat)" and "(of_char ch :: nat) \<le> 90"
  shows "(of_char (canonical_char False ch) :: nat) = of_char ch + 32"
proof -
  have "((of_char ch :: nat) + 32) mod 256 = of_char ch + 32"
    using assms by (intro mod_less) linarith
  with assms show ?thesis by (simp add: canonical_char_lower)
qed

lemma canonical_char_idem:
  "canonical_char upper (canonical_char upper ch) = canonical_char upper ch"
proof (cases upper)
  case True
  show ?thesis
  proof (cases "97 \<le> (of_char ch :: nat) \<and> (of_char ch :: nat) \<le> 122")
    case c: True
    then have "(of_char (canonical_char True ch) :: nat) = of_char ch - 32"
      by (simp add: of_char_upper)
    with c have "\<not> (97 \<le> (of_char (canonical_char True ch) :: nat) \<and>
                    (of_char (canonical_char True ch) :: nat) \<le> 122)" by linarith
    then have "canonical_char True (canonical_char True ch) = canonical_char True ch"
      by (subst canonical_char_upper) (simp; blast)
    with True show ?thesis by simp
  next
    case False
    then have "canonical_char True ch = ch" by (simp add: canonical_char_upper; blast)
    with True show ?thesis by simp
  qed
next
  case lo: False
  show ?thesis
  proof (cases "65 \<le> (of_char ch :: nat) \<and> (of_char ch :: nat) \<le> 90")
    case c: True
    then have "(of_char (canonical_char False ch) :: nat) = of_char ch + 32"
      by (simp add: of_char_lower)
    with c have "\<not> (65 \<le> (of_char (canonical_char False ch) :: nat) \<and>
                    (of_char (canonical_char False ch) :: nat) \<le> 90)" by linarith
    then have "canonical_char False (canonical_char False ch) = canonical_char False ch"
      by (subst canonical_char_lower) (simp; blast)
    with lo show ?thesis by simp
  next
    case False
    then have "canonical_char False ch = ch" by (simp add: canonical_char_lower; blast)
    with lo show ?thesis by simp
  qed
qed

lemma validHeaderFieldByte_letter:
  "(65 \<le> (of_char ch :: nat) \<and> (of_char ch :: nat) \<le> 90) \<or>
   (97 \<le> (of_char ch :: nat) \<and> (of_char ch :: nat) \<le> 122) \<Longrightarrow> validHeaderFieldByte ch"
  by (simp add: validHeaderFieldByte_def Let_def) blast

lemma canonical_char_valid:
  assumes "validHeaderFieldByte ch"
  shows "validHeaderFieldByte (canonical_char upper ch)"
proof (cases upper)
  case True
  show ?thesis
  proof (cases "97 \<le> (of_char ch :: nat) \<and> (of_char ch :: nat) \<le> 122")
    case c: True
    then have "(of_char (canonical_char True ch) :: nat) = of_char ch - 32"
      by (simp add: of_char_upper)
    with c have "65 \<le> (of_char (canonical_char True ch) :: nat) \<and>
                 (of_char (canonical_char True ch) :: nat) \<le> 90" by linarith
    with True show ?thesis by (simp add: validHeaderFieldByte_letter)
  next
    case False
    then have "canonical_char True ch = ch" by (simp add: canonical_char_upper; blast)
    with True assms show ?thesis by simp
  qed
next
  case lo: False
  show ?thesis
  proof (cases "65 \<le> (of_char ch :: nat) \<and> (of_char ch :: nat) \<le> 90")
    case c: True
    then have "(of_char (canonical_char False ch) :: nat) = of_char ch + 32"
      by (simp add: of_char_lower)
    with c have "97 \<le> (of_char (canonical_char False ch) :: nat) \<and>
                 (of_char (canonical_char False ch) :: nat) \<le> 122" by linarith
    with lo show ?thesis by (simp add: validHeaderFieldByte_letter)
  next
    case False
    then have "canonical_char False ch = ch" by (simp add: canonical_char_lower; blast)
    with lo assms show ?thesis by simp
  qed
qed

lemma canonical_from_idem:
  "canonical_from upper (canonical_from upper s) = canonical_from upper s"
proof (induction s arbitrary: upper)
  case Nil
  then show ?case by simp
next
  case (Cons ch cs)
  show ?case
    by (simp only: canonical_from_Cons canonical_char_idem Cons.IH)
qed

lemma canonical_from_valid:
  "list_all validHeaderFieldByte s \<Longrightarrow> list_all validHeaderFieldByte (canonical_from upper s)"
proof (induction s arbitrary: upper)
  case Nil
  then show ?case by simp
next
  case (Cons ch cs)
  from Cons.prems have v: "validHeaderFieldByte ch" and r: "list_all validHeaderFieldByte cs"
    by simp_all
  have "list_all validHeaderFieldByte (canonical_from (canonical_char upper ch = CHR ''-'') cs)"
    using r by (rule Cons.IH)
  with canonical_char_valid [OF v, of upper] show ?case
    by (simp only: canonical_from_Cons list.pred_inject simp_thms)
qed

lemma CanonicalMIMEHeaderKey_idem:
  "CanonicalMIMEHeaderKey (CanonicalMIMEHeaderKey s) = CanonicalMIMEHeaderKey s"
proof (cases "list_all validHeaderFieldByte s")
  case True
  with canonical_from_valid [OF True, of True] show ?thesis
    by (simp add: CanonicalMIMEHeaderKey_def canonical_from_idem)
next
  case False
  then show ?thesis by (simp add: CanonicalMIMEHeaderKey_def)
qed

lemma fresh_Header_Add: "fresh (Header_Add hp h k v) = fresh hp"
  by (simp add: Header_Add_def)

lemma cells_Header_Add_other: "r \<noteq> h \<Longrightarrow> cells (Header_Add hp h k v) r = cells hp r"
  by (simp add: Header_Add_def)


lemma fresh_add_values: "fresh (add_values hp dst k vv) = fresh hp"
  by (induction vv arbitrary: hp) (simp_all add: fresh_Header_Add)

lemma cells_add_values_other: "r \<noteq> dst \<Longrightarrow> cells (add_values hp dst k vv) r = cells hp r"
  by (induction vv arbitrary: hp) (simp_all add: cells_Header_Add_other)


lemma fresh_copyHeader: "fresh (copyHeader ks dst src hp) = fresh hp"
  by (induction ks arbitrary: hp) (simp_all add: fresh_add_values split: option.splits)

lemma cells_copyHeader_other: "r \<noteq> dst \<Longrightarrow> cells (copyHeader ks dst src hp) r = cells hp r"
  by (induction ks arbitrary: hp) (simp_all add: cells_add_values_other split: option.splits)


lemma index_Header_Set:
  "index (cells (Header_Set hp h key v) h) k =
     (if k = CanonicalMIMEHeaderKey key then [v] else index (cells hp h) k)"
  by (simp add: Header_Set_def MIMEHeader_Set_def index_def)

lemma cells_Header_Set_other: "r \<noteq> h \<Longrightarrow> cells (Header_Set hp h key v) r = cells hp r"
  by (simp add: Header_Set_def)

lemma fresh_Header_Set: "fresh (Header_Set hp h key v) = fresh hp"
  by (simp add: Header_Set_def)

lemma canonical_keys_image:
  assumes "\<forall>k \<in> dom m. \<exists>k0. k = CanonicalMIMEHeaderKey k0"
  shows "canonical_keys m"
  unfolding canonical_keys_def
proof
  fix k assume "k \<in> dom m"
  with assms obtain k0 where "k = CanonicalMIMEHeaderKey k0" by blast
  then show "CanonicalMIMEHeaderKey k = k" by (simp add: CanonicalMIMEHeaderKey_idem)
qed

lemma dom_Header_Add:
  "dom (cells (Header_Add hp dst k v) dst) = insert (CanonicalMIMEHeaderKey k) (dom (cells hp dst))"
  by (simp add: Header_Add_def MIMEHeader_Add_def Let_def)

lemma dom_add_values:
  "dom (cells (add_values hp dst k vv) dst) \<subseteq> insert (CanonicalMIMEHeaderKey k) (dom (cells hp dst))"
proof (induction vv arbitrary: hp)
  case Nil
  then show ?case by auto
next
  case (Cons v vv)
  from Cons.IH [of "Header_Add hp dst k v"] show ?case
    by (simp add: dom_Header_Add)
qed

lemma dom_copyHeader:
  "dom (cells (copyHeader ks dst src hp) dst) \<subseteq> dom (cells hp dst) \<union> CanonicalMIMEHeaderKey ` set ks"
proof (induction ks arbitrary: hp)
  case Nil
  then show ?case by simp
next
  case (Cons k ks)
  show ?case
  proof (cases "cells hp src k")
    case None
    with Cons.IH [of hp] show ?thesis by auto
  next
    case (Some vv)
    from Cons.IH [of "add_values hp dst k vv"] dom_add_values [of hp dst k vv] Some
    show ?thesis by auto
  qed
qed

section \<open>The cleanup loop\<close>

lemma cleanup_range_frame:
  "ttl (run_c (cleanup_range t visits s)) = ttl (run_c s) \<and>
   run_rp (cleanup_range t visits s) = run_rp s \<and>
   heap (cleanup_range t visits s) = heap s"
  by (induction t visits s rule: cleanup_range.induct) (simp_all split: option.splits)

lemma cleanup_range_absent:
  "key \<notin> fst ` set visits \<Longrightarrow>
   data (run_c (cleanup_range t visits s)) key = data (run_c s) key"
  by (induction t visits s rule: cleanup_range.induct) (auto split: option.splits)

lemma cleanup_range_None:
  "data (run_c s) key = None \<Longrightarrow> data (run_c (cleanup_range t visits s)) key = None"
  by (induction t visits s rule: cleanup_range.induct) (auto split: option.splits)

lemma cleanup_range_visited:
  assumes "distinct (map fst visits)" and "(key, now) \<in> set visits"
    and "data (run_c s) key = Some d"
  shows "data (run_c (cleanup_range t visits s)) key =
           (if isCacheStale now (age d) t then None else Some d)"
  using assms
proof (induction t visits s rule: cleanup_range.induct)
  case (1 t s)
  then show ?case by simp
next
  case (2 t k n visits s)
  show ?case
  proof (cases "k = key")
    case True
    with "2.prems" have n: "n = now" and notin: "key \<notin> fst ` set visits"
      by (auto simp: rev_image_eqI)
    show ?thesis
      using True n "2.prems"(3) notin
      by (simp add: cleanup_range_absent cleanup_range_None)
  next
    case False
    with 2 show ?thesis by (auto split: option.splits)
  qed
qed

lemma cleanup_range_subset:
  "data (run_c (cleanup_range t visits s)) k = Some d \<Longrightarrow> data (run_c s) k = Some d"
proof (induction t visits s rule: cleanup_range.induct)
  case (1 t s)
  then show ?case by simp
next
  case (2 t key now visits s)
  show ?case
  proof (cases "data (run_c s) key")
    case None
    with 2 show ?thesis by simp
  next
    case (Some d0)
    show ?thesis
    proof (cases "isCacheStale now (age d0) t")
      case True
      with Some "2.prems" "2.IH"(2) [OF Some True]
      have "((data (run_c s))(key := None)) k = Some d" by simp
      then show ?thesis by (simp split: if_splits)
    next
      case False
      with Some "2.prems" "2.IH"(3) [OF Some False] show ?thesis by simp
    qed
  qed
qed


lemma data_cleanup: "data (run_c (cleanup t visits s)) = data (run_c (cleanup_range t visits s))"
  by (simp add: cleanup_def Let_def)

lemma cleanup_frame:
  "ttl (run_c (cleanup t visits s)) = ttl (run_c s) \<and> run_rp (cleanup t visits s) = run_rp s \<and>
   heap (cleanup t visits s) = heap s"
  using cleanup_range_frame [of t visits s] by (simp add: cleanup_def Let_def)

section \<open>The capture\<close>

lemma saveCacheData_success:
  assumes "read_err (Body res) = None" and "close_err (Body res) = None"
  shows "saveCacheData res x now s =
    (None, res\<lparr>Body := NopCloser (pending (Body res))\<rparr>,
     s\<lparr>heap := Header_Add (snd (Header_Clone (heap s) (Header res))) (Header res) ''X-Cache'' x,
       run_c := (run_c s)\<lparr>data := (data (run_c s))(RequestURI (Request res) \<mapsto>
                  \<lparr>header = fresh (heap s), body = pending (Body res), age = now,
                   status = StatusCode res\<rparr>)\<rparr>,
       trace := trace s @ [CacheStore (RequestURI (Request res))]\<rparr>)"
  using assms
  by (simp add: saveCacheData_def ReadAll_def Close_def Header_Clone_def make_Header_def
      Store_def Let_def)

lemma saveCacheData_read_failure:
  assumes "read_err (Body res) = Some e"
  shows "saveCacheData res x now s = (Some e, res\<lparr>Body := (Body res)\<lparr>pending := []\<rparr>\<rparr>, s)"
  using assms by (simp add: saveCacheData_def ReadAll_def Let_def)

lemma saveCacheData_close_failure:
  assumes "read_err (Body res) = None" and "close_err (Body res) = Some e"
  shows "saveCacheData res x now s = (Some e, res\<lparr>Body := (Body res)\<lparr>pending := []\<rparr>\<rparr>, s)"
  using assms by (simp add: saveCacheData_def ReadAll_def Close_def Let_def)

lemma saveCacheData_failure:
  assumes "read_err (Body res) \<noteq> None \<or> close_err (Body res) \<noteq> None"
  shows "\<exists>m. saveCacheData res x now s = (Some m, res\<lparr>Body := (Body res)\<lparr>pending := []\<rparr>\<rparr>, s)"
proof (cases "read_err (Body res)")
  case (Some m)
  from saveCacheData_read_failure [OF Some] show ?thesis by blast
next
  case None
  with assms obtain m where "close_err (Body res) = Some m" by auto
  from saveCacheData_close_failure [OF None this] show ?thesis by blast
qed

lemma closure_not_GET:
  "Method (Request res) \<noteq> MethodGet \<Longrightarrow> ModifyResponse_closure res now s = (None, res, s)"
  by (simp add: ModifyResponse_closure_def)

lemma closure_success:
  assumes "Method (Request res) = MethodGet"
    and "read_err (Body res) = None" and "close_err (Body res) = None"
  shows "ModifyResponse_closure res now s =
    (None, res\<lparr>Body := NopCloser (pending (Body res))\<rparr>,
     s\<lparr>heap := Header_Add (snd (Header_Clone (heap s) (Header res))) (Header res) ''X-Cache'' XCacheMiss,
       run_c := (run_c s)\<lparr>data := (data (run_c s))(RequestURI (Request res) \<mapsto>
                  \<lparr>header = fresh (heap s), body = pending (Body res), age = now,
                   status = StatusCode res\<rparr>)\<rparr>,
       trace := trace s @ [CacheStore (RequestURI (Request res))]\<rparr>)"
  using assms by (simp add: ModifyResponse_closure_def saveCacheData_success)

lemma closure_failure:
  assumes "Method (Request res) = MethodGet"
    and "saveCacheData res XCacheMiss now s = (Some e, res1, s1)"
  shows "ModifyResponse_closure res now s =
    (None, res1, s1\<lparr>trace := trace s1 @ [LogPrintf (''error while saving stale cache '' @ e)]\<rparr>)"
  using assms by (simp add: ModifyResponse_closure_def)


lemma accessed_append: "accessed (xs @ ys) = accessed xs @ accessed ys"
  by (induction xs rule: accessed.induct) simp_all

lemma saveCacheData_effects:
  assumes "saveCacheData res x now s = (err, res1, s1)"
  shows "run_rp s1 = run_rp s \<and> ttl (run_c s1) = ttl (run_c s) \<and>
         (\<forall>k. k \<noteq> RequestURI (Request res) \<longrightarrow> data (run_c s1) k = data (run_c s) k) \<and>
         StatusCode res1 = StatusCode res \<and> Header res1 = Header res \<and>
         (trace s1 = trace s \<and> run_c s1 = run_c s \<and> heap s1 = heap s \<and> err \<noteq> None \<or>
          trace s1 = trace s @ [CacheStore (RequestURI (Request res))] \<and> err = None)"
proof (cases "read_err (Body res)")
  case (Some m)
  from saveCacheData_read_failure [OF Some, of x now s] assms show ?thesis by auto
next
  case None
  show ?thesis
  proof (cases "close_err (Body res)")
    case (Some m)
    from saveCacheData_close_failure [OF None Some, of x now s] assms show ?thesis by auto
  next
    case cn: None
    from saveCacheData_success [OF None cn, of x now s] assms show ?thesis by auto
  qed
qed

lemma closure_effects:
  assumes "ModifyResponse_closure res now s = (err, res1, s1)"
  shows "err = None \<and> run_rp s1 = run_rp s \<and> ttl (run_c s1) = ttl (run_c s) \<and>
         (\<forall>k. k \<noteq> RequestURI (Request res) \<longrightarrow> data (run_c s1) k = data (run_c s) k) \<and>
         StatusCode res1 = StatusCode res \<and> Header res1 = Header res \<and>
         (Method (Request res) \<noteq> MethodGet \<longrightarrow> s1 = s \<and> res1 = res) \<and>
         (\<exists>evs. trace s1 = trace s @ evs \<and> forwarded evs = [] \<and>
                set (accessed evs) \<subseteq> {RequestURI (Request res)})"
proof (cases "Method (Request res) = MethodGet")
  case False
  with assms show ?thesis by (simp add: ModifyResponse_closure_def)
next
  case True
  obtain err0 res0 s0 where sv: "saveCacheData res XCacheMiss now s = (err0, res0, s0)"
    by (cases "saveCacheData res XCacheMiss now s") auto
  from saveCacheData_effects [OF sv] sv assms True show ?thesis
    by (auto simp: ModifyResponse_closure_def split: option.splits)
qed

lemma saveCacheData_heap:
  assumes "saveCacheData res x now s = (err, res1, s1)"
  shows "fresh (heap s) \<le> fresh (heap s1) \<and>
         (\<forall>r'. r' < fresh (heap s) \<and> r' \<noteq> Header res \<longrightarrow> cells (heap s1) r' = cells (heap s) r') \<and>
         (\<forall>k d. data (run_c s1) k = Some d \<longrightarrow>
            data (run_c s) k = Some d \<or>
            (Header res < fresh (heap s) \<longrightarrow>
               fresh (heap s) \<le> header d \<and> header d < fresh (heap s1) \<and>
               cells (heap s1) (header d) = cells (heap s) (Header res)))"
proof (cases "read_err (Body res)")
  case (Some m)
  from saveCacheData_read_failure [OF Some, of x now s] assms show ?thesis by auto
next
  case None
  show ?thesis
  proof (cases "close_err (Body res)")
    case (Some m)
    from saveCacheData_close_failure [OF None Some, of x now s] assms show ?thesis by auto
  next
    case cn: None
    from saveCacheData_success [OF None cn, of x now s] assms show ?thesis
      by (auto simp: Header_Clone_def make_Header_def Header_Add_def)
  qed
qed

lemma closure_heap:
  assumes "ModifyResponse_closure res now s = (err, res1, s1)"
  shows "fresh (heap s) \<le> fresh (heap s1) \<and>
         (\<forall>r'. r' < fresh (heap s) \<and> r' \<noteq> Header res \<longrightarrow> cells (heap s1) r' = cells (heap s) r') \<and>
         (\<forall>k d. data (run_c s1) k = Some d \<longrightarrow>
            data (run_c s) k = Some d \<or>
            (Header res < fresh (heap s) \<longrightarrow>
               fresh (heap s) \<le> header d \<and> header d < fresh (heap s1) \<and>
               cells (heap s1) (header d) = cells (heap s) (Header res)))"
proof (cases "Method (Request res) = MethodGet")
  case False
  with assms show ?thesis by (simp add: ModifyResponse_closure_def)
next
  case True
  obtain err0 res0 s0 where sv: "saveCacheData res XCacheMiss now s = (err0, res0, s0)"
    by (cases "saveCacheData res XCacheMiss now s") auto
  have "heap s1 = heap s0 \<and> run_c s1 = run_c s0"
    using sv assms True by (auto simp: ModifyResponse_closure_def split: option.splits)
  with saveCacheData_heap [OF sv] show ?thesis by simp
qed

section \<open>The forwarder\<close>

lemma Director_keeps:
  "Method (Director rp r) = Method r \<and> RequestURI (Director rp r) = RequestURI r"
  by (simp add: Director_def)


lemma WriteHeader_fields:
  "wHeader (WriteHeader w c) = wHeader w \<and> wBody (WriteHeader w c) = wBody w \<and>
   wErr (WriteHeader w c) = wErr w \<and>
   wStatus (WriteHeader w c) = (if wStatus w = None then Some c else wStatus w)"
  by (simp add: WriteHeader_def)

lemma ServeHTTP_captured:
  assumes up: "upstream e = RoundTripResponse code hdr rc"
    and hook: "ModifyResponse (run_rp s)"
    and get: "Method r = MethodGet"
    and ok: "read_err rc = None" "close_err rc = None"
  shows "ServeHTTP w r e s =
     (fst (Write (WriteHeader w code) (pending rc)),
      s\<lparr>heap := copyHeader (relay_order e) (wHeader w) (fresh (heap s)) (captured_heap (heap s) hdr),
        run_c := (run_c s)\<lparr>data := (data (run_c s))(RequestURI r \<mapsto>
                  \<lparr>header = Suc (fresh (heap s)), body = pending rc, age = now_capture e,
                   status = code\<rparr>)\<rparr>,
        trace := trace s @ [Forward (Director (run_rp s) r), CacheStore (RequestURI r)]\<rparr>)"
proof -
  let ?res = "\<lparr>Request = Director (run_rp s) r, StatusCode = code, Header = fresh (heap s), Body = rc\<rparr>"
  let ?s2 = "s\<lparr>trace := trace s @ [Forward (Director (run_rp s) r)],
               heap := snd (make_Header (heap s) hdr)\<rparr>"
  have cl: "ModifyResponse_closure ?res (now_capture e) ?s2 =
    (None, ?res\<lparr>Body := NopCloser (pending rc)\<rparr>,
     ?s2\<lparr>heap := Header_Add (snd (Header_Clone (heap ?s2) (Header ?res))) (Header ?res) ''X-Cache'' XCacheMiss,
       run_c := (run_c ?s2)\<lparr>data := (data (run_c ?s2))(RequestURI (Request ?res) \<mapsto>
                  \<lparr>header = fresh (heap ?s2), body = pending (Body ?res), age = now_capture e,
                   status = StatusCode ?res\<rparr>)\<rparr>,
       trace := trace ?s2 @ [CacheStore (RequestURI (Request ?res))]\<rparr>)"
    using closure_success [of ?res "now_capture e" ?s2] get ok by (simp add: Director_keeps)
  have hp: "Header_Add (snd (Header_Clone (heap ?s2) (Header ?res))) (Header ?res) ''X-Cache'' XCacheMiss
        = captured_heap (heap s) hdr"
    by (simp add: Header_Clone_def make_Header_def Header_Add_def captured_heap_def fun_upd_twist)
  show ?thesis
    unfolding ServeHTTP_def
    using up hook cl hp
    by (simp add: Let_def make_Header_def ReadAll_def NopCloser_def Write_def Director_keeps
        split: prod.splits)
qed

lemma ServeHTTP_effects:
  assumes "ServeHTTP w r e s = (w1, s1)"
  shows "run_rp s1 = run_rp s \<and> ttl (run_c s1) = ttl (run_c s) \<and>
         (\<forall>k. k \<noteq> RequestURI r \<longrightarrow> data (run_c s1) k = data (run_c s) k) \<and>
         (Method r \<noteq> MethodGet \<longrightarrow> run_c s1 = run_c s) \<and>
         (\<exists>evs. trace s1 = trace s @ Forward (Director (run_rp s) r) # evs \<and> forwarded evs = [] \<and>
                set (accessed evs) \<subseteq> {RequestURI r} \<and>
                (Method r \<noteq> MethodGet \<longrightarrow> accessed evs = []))"
proof (cases "upstream e")
  case (RoundTripError msg)
  with assms show ?thesis
    by (auto simp: ServeHTTP_def ErrorHandler_def Let_def)
next
  case (RoundTripResponse code hdr rc)
  let ?res = "\<lparr>Request = Director (run_rp s) r, StatusCode = code, Header = fresh (heap s), Body = rc\<rparr>"
  let ?s2 = "s\<lparr>trace := trace s @ [Forward (Director (run_rp s) r)],
               heap := snd (make_Header (heap s) hdr)\<rparr>"
  show ?thesis
  proof (cases "ModifyResponse (run_rp s)")
    case False
    with assms RoundTripResponse show ?thesis
      by (auto simp: ServeHTTP_def Let_def make_Header_def split: prod.splits)
  next
    case True
    obtain err res1 s3 where cl: "ModifyResponse_closure ?res (now_capture e) ?s2 = (err, res1, s3)"
      by (cases "ModifyResponse_closure ?res (now_capture e) ?s2") auto
    have s1: "trace s1 = trace s3 \<and> run_c s1 = run_c s3 \<and> run_rp s1 = run_rp s3"
      using assms RoundTripResponse True cl closure_effects [OF cl]
      by (auto simp: ServeHTTP_def ErrorHandler_def Let_def make_Header_def split: prod.splits)
    from closure_effects [OF cl] obtain evs where
      ev: "trace s3 = trace ?s2 @ evs" "forwarded evs = []"
          "set (accessed evs) \<subseteq> {RequestURI r}"
      by (auto simp: Director_keeps)
    have ng: "Method r \<noteq> MethodGet \<Longrightarrow> s3 = ?s2"
      using closure_effects [OF cl] by (simp add: Director_keeps)
    have ng2: "Method r \<noteq> MethodGet \<Longrightarrow> accessed evs = []"
      using ng ev(1) by simp
    have tr: "trace s1 = trace s @ Forward (Director (run_rp s) r) # evs"
      using s1 ev(1) by simp
    have fr: "run_rp s1 = run_rp s \<and> ttl (run_c s1) = ttl (run_c s) \<and>
         (\<forall>k. k \<noteq> RequestURI r \<longrightarrow> data (run_c s1) k = data (run_c s) k)"
      using s1 closure_effects [OF cl] by (simp add: Director_keeps)
    have fr2: "Method r \<noteq> MethodGet \<Longrightarrow> run_c s1 = run_c s"
      using s1 ng by simp
    show ?thesis
      using tr ev(2,3) ng2 fr fr2 by blast
  qed
qed

lemma ServeHTTP_heap:
  assumes sv: "ServeHTTP w r e s = (w1, s1)" and w: "wHeader w < fresh (heap s)"
  shows "fresh (heap s) \<le> fresh (heap s1) \<and> wHeader w1 = wHeader w \<and>
         (\<forall>r'. r' < fresh (heap s) \<and> r' \<noteq> wHeader w \<longrightarrow> cells (heap s1) r' = cells (heap s) r') \<and>
         (\<forall>k d. data (run_c s1) k = Some d \<longrightarrow>
            data (run_c s) k = Some d \<or>
            (fresh (heap s) \<le> header d \<and> header d < fresh (heap s1) \<and>
             (\<exists>code hdr rc. upstream e = RoundTripResponse code hdr rc \<and>
                 cells (heap s1) (header d) = hdr)))"
proof (cases "upstream e")
  case (RoundTripError msg)
  with sv show ?thesis
    by (auto simp: ServeHTTP_def ErrorHandler_def Let_def WriteHeader_fields)
next
  case (RoundTripResponse code hdr rc)
  let ?res = "\<lparr>Request = Director (run_rp s) r, StatusCode = code, Header = fresh (heap s), Body = rc\<rparr>"
  let ?s2 = "s\<lparr>trace := trace s @ [Forward (Director (run_rp s) r)],
               heap := snd (make_Header (heap s) hdr)\<rparr>"
  obtain err res1 s3 where cl:
    "(if ModifyResponse (run_rp ?s2) then ModifyResponse_closure ?res (now_capture e) ?s2
      else (None, ?res, ?s2)) = (err, res1, s3)"
    by (cases "if ModifyResponse (run_rp ?s2) then ModifyResponse_closure ?res (now_capture e) ?s2
      else (None, ?res, ?s2)") auto
  have h3: "fresh (heap ?s2) \<le> fresh (heap s3) \<and>
         (\<forall>r'. r' < fresh (heap ?s2) \<and> r' \<noteq> Header ?res \<longrightarrow> cells (heap s3) r' = cells (heap ?s2) r') \<and>
         (\<forall>k d. data (run_c s3) k = Some d \<longrightarrow>
            data (run_c ?s2) k = Some d \<or>
            (Header ?res < fresh (heap ?s2) \<longrightarrow>
               fresh (heap ?s2) \<le> header d \<and> header d < fresh (heap s3) \<and>
               cells (heap s3) (header d) = cells (heap ?s2) (Header ?res)))"
  proof (cases "ModifyResponse (run_rp ?s2)")
    case True
    with cl closure_heap [of ?res "now_capture e" ?s2 err res1 s3] show ?thesis by simp
  next
    case False
    with cl show ?thesis by auto
  qed
  have hr: "Header res1 = fresh (heap s)"
  proof (cases "ModifyResponse (run_rp ?s2)")
    case True
    with cl closure_effects [of ?res "now_capture e" ?s2 err res1 s3] show ?thesis by simp
  next
    case False
    with cl show ?thesis by auto
  qed
  have s1: "run_c s1 = run_c s3 \<and> wHeader w1 = wHeader w \<and>
            (heap s1 = heap s3 \<or> heap s1 = copyHeader (relay_order e) (wHeader w) (fresh (heap s)) (heap s3))"
    using sv RoundTripResponse cl hr
    by (auto simp: ServeHTTP_def ErrorHandler_def Let_def make_Header_def WriteHeader_fields
        Write_def split: prod.splits option.splits if_splits)
  have fr: "fresh (heap s1) = fresh (heap s3)"
    using s1 by (auto simp: fresh_copyHeader)
  have ce: "r' \<noteq> wHeader w \<Longrightarrow> cells (heap s1) r' = cells (heap s3) r'" for r'
    using s1 by (auto simp: cells_copyHeader_other)
  have a: "fresh (heap s) \<le> fresh (heap s1)"
    using h3 fr by (simp add: make_Header_def)
  have b: "\<forall>r'. r' < fresh (heap s) \<and> r' \<noteq> wHeader w \<longrightarrow> cells (heap s1) r' = cells (heap s) r'"
    using h3 ce by (simp add: make_Header_def)
  have c: "data (run_c s) k = Some d \<or>
            (fresh (heap s) \<le> header d \<and> header d < fresh (heap s1) \<and>
             (\<exists>code hdr rc. upstream e = RoundTripResponse code hdr rc \<and>
                 cells (heap s1) (header d) = hdr))"
    if d: "data (run_c s1) k = Some d" for k d
  proof -
    from d s1 have d3: "data (run_c s3) k = Some d" by simp
    from h3 have "data (run_c s3) k = Some d \<longrightarrow>
            data (run_c ?s2) k = Some d \<or>
            (Header ?res < fresh (heap ?s2) \<longrightarrow>
               fresh (heap ?s2) \<le> header d \<and> header d < fresh (heap s3) \<and>
               cells (heap s3) (header d) = cells (heap ?s2) (Header ?res))"
      by blast
    with d3 have "data (run_c s) k = Some d \<or>
       (Suc (fresh (heap s)) \<le> header d \<and> header d < fresh (heap s3) \<and>
        cells (heap s3) (header d) = hdr)"
      by (simp add: make_Header_def)
    then show ?thesis
    proof
      assume "data (run_c s) k = Some d" then show ?thesis by simp
    next
      assume n: "Suc (fresh (heap s)) \<le> header d \<and> header d < fresh (heap s3) \<and>
        cells (heap s3) (header d) = hdr"
      with w have "header d \<noteq> wHeader w" by simp
      with n fr ce [of "header d"] RoundTripResponse show ?thesis by simp
    qed
  qed
  from a b c s1 show ?thesis by blast
qed

lemma ServeHTTP_response:
  assumes "upstream e = RoundTripResponse code hdr rc"
  shows "ServeHTTP w r e s =
     (case call_ModifyResponse r e code hdr rc s of
        (Some msg, res1, s3) \<Rightarrow> ErrorHandler w msg s3
      | (None, res1, s3) \<Rightarrow>
          (fst (Write (WriteHeader w (StatusCode res1)) (pending (Body res1))),
           s3\<lparr>heap := copyHeader (relay_order e) (wHeader w) (Header res1) (heap s3)\<rparr>))"
  using assms
  by (simp add: ServeHTTP_def call_ModifyResponse_def Let_def make_Header_def ReadAll_def
      Write_def split: prod.splits option.splits)

lemma call_ModifyResponse_result:
  assumes "call_ModifyResponse r e code hdr rc s = (err, res1, s3)"
  shows "err = None \<and> StatusCode res1 = code \<and> Header res1 = fresh (heap s)"
proof (cases "ModifyResponse (run_rp s)")
  case True
  with assms closure_effects [of _ "now_capture e" _ err res1 s3] show ?thesis
    by (simp add: call_ModifyResponse_def Let_def)
next
  case False
  with assms show ?thesis by (auto simp: call_ModifyResponse_def Let_def)
qed

lemma ServeHTTP_relays:
  assumes up: "upstream e = RoundTripResponse code hdr rc"
    and sv: "ServeHTTP w r e s = (w1, s1)"
  shows "\<exists>res1 s3. call_ModifyResponse r e code hdr rc s = (None, res1, s3) \<and>
           w1 = fst (Write (WriteHeader w code) (pending (Body res1))) \<and>
           run_c s1 = run_c s3 \<and> trace s1 = trace s3"
proof -
  obtain err res1 s3 where cl: "call_ModifyResponse r e code hdr rc s = (err, res1, s3)"
    by (cases "call_ModifyResponse r e code hdr rc s") auto
  note r = call_ModifyResponse_result [OF cl]
  from sv show ?thesis
    unfolding ServeHTTP_response [OF up] cl using r by auto
qed

text \<open>
  After a failed capture the body of the response is the drained stream, so the forwarder
  has no bytes of it left to copy to the client.
\<close>

lemma failed_capture_relays_no_body:
  assumes up: "upstream e = RoundTripResponse code hdr rc"
    and get: "Method r = MethodGet" and hook: "ModifyResponse (run_rp s)"
    and fails: "read_err rc \<noteq> None \<or> close_err rc \<noteq> None"
    and sv: "ServeHTTP w r e s = (w1, s1)"
  shows "wBody w1 = wBody w"
proof -
  let ?res = "\<lparr>Request = Director (run_rp s) r, StatusCode = code, Header = fresh (heap s),
               Body = rc\<rparr>"
  let ?s2 = "s\<lparr>trace := trace s @ [Forward (Director (run_rp s) r)],
               heap := snd (make_Header (heap s) hdr)\<rparr>"
  from ServeHTTP_relays [OF up sv] obtain res3 s3 where
    c: "call_ModifyResponse r e code hdr rc s = (None, res3, s3)"
    and w1: "w1 = fst (Write (WriteHeader w code) (pending (Body res3)))"
    by blast
  from c hook have cc: "ModifyResponse_closure ?res (now_capture e) ?s2 = (None, res3, s3)"
    by (simp add: call_ModifyResponse_def Let_def)
  have f: "read_err (Body ?res) \<noteq> None \<or> close_err (Body ?res) \<noteq> None"
    using fails by simp
  from saveCacheData_failure [OF f, of XCacheMiss "now_capture e" ?s2] obtain m where
    m: "saveCacheData ?res XCacheMiss (now_capture e) ?s2 =
           (Some m, ?res\<lparr>Body := (Body ?res)\<lparr>pending := []\<rparr>\<rparr>, ?s2)" by blast
  have g: "Method (Request ?res) = MethodGet" using get by (simp add: Director_keeps)
  from closure_failure [OF g m] cc have "pending (Body res3) = []" by auto
  with w1 show ?thesis by (simp add: Write_def WriteHeader_fields)
qed

section \<open>The handler\<close>

lemma handler_hit:
  assumes "Method r = MethodGet" and "data (run_c s) (RequestURI r) = Some d"
    and "\<not> isCacheStale (now_lookup e) (age d) (ttl (run_c s))"
  shows "handler w r e s =
     writeToResponseCacheHit (hit_order e) w d (s\<lparr>trace := trace s @ [CacheLookup (RequestURI r)]\<rparr>)"
  using assms by (simp add: handler_def)

lemma handler_miss:
  assumes "Method r = MethodGet" and "missed s r (now_lookup e)"
  shows "handler w r e s =
     ServeHTTP w r e (handleMissedCache (s\<lparr>trace := trace s @ [CacheLookup (RequestURI r)]\<rparr>))"
  using assms by (simp add: handler_def missed_def split: option.splits)

lemma handler_other_method:
  "Method r \<noteq> MethodGet \<Longrightarrow> handler w r e s = ServeHTTP w r e s"
  by (simp add: handler_def)

lemma writeToResponseCacheHit_eq:
  "writeToResponseCacheHit ks w d s =
     (fst (Write (WriteHeader w (status d)) (body d)),
      s\<lparr>heap := Header_Set (copyHeader ks (wHeader w) (header d) (heap s)) (wHeader w) ''X-Cache'' XCacheHit,
        trace := trace s @ (case wErr w of None \<Rightarrow> []
                            | Some e \<Rightarrow> [LogPrintf (''can't write to body '' @ e)])\<rparr>)"
  by (simp add: writeToResponseCacheHit_def Let_def Write_def WriteHeader_fields
      split: option.splits)

lemma hit_keys_canonical:
  assumes "canonical_keys (cells (heap s) (wHeader w))"
  shows "canonical_keys (cells (heap (snd (writeToResponseCacheHit ks w d s)))
                              (wHeader (fst (writeToResponseCacheHit ks w d s))))"
proof -
  let ?hp1 = "copyHeader ks (wHeader w) (header d) (heap s)"
  have eq: "cells (heap (snd (writeToResponseCacheHit ks w d s)))
                  (wHeader (fst (writeToResponseCacheHit ks w d s))) =
            (cells ?hp1 (wHeader w))(''X-Cache'' \<mapsto> [XCacheHit])"
    by (simp add: writeToResponseCacheHit_eq Write_def WriteHeader_fields Header_Set_def
        MIMEHeader_Set_def canon_XCache)
  show ?thesis
    unfolding eq canonical_keys_def
  proof
    fix k assume k: "k \<in> dom ((cells ?hp1 (wHeader w))(''X-Cache'' \<mapsto> [XCacheHit]))"
    show "CanonicalMIMEHeaderKey k = k"
    proof (cases "k = ''X-Cache''")
      case True
      then show ?thesis by (simp add: canon_XCache)
    next
      case False
      with k have "k \<in> dom (cells ?hp1 (wHeader w))" by auto
      with dom_copyHeader [of ks "wHeader w" "header d" "heap s"]
      have "k \<in> dom (cells (heap s) (wHeader w)) \<or> k \<in> CanonicalMIMEHeaderKey ` set ks"
        by auto
      then show ?thesis
      proof
        assume "k \<in> dom (cells (heap s) (wHeader w))"
        with assms show ?thesis by (simp add: canonical_keys_def)
      next
        assume "k \<in> CanonicalMIMEHeaderKey ` set ks"
        then show ?thesis by (auto simp: CanonicalMIMEHeaderKey_idem)
      qed
    qed
  qed
qed

lemma serve_unfold:
  "serve r e s =
     handler \<lparr>wHeader = fresh (heap s), wStatus = None, wBody = [], wErr = write_err e\<rparr> r e
       (s\<lparr>heap := snd (make_Header (heap s) Map.empty)\<rparr>)"
  by (simp add: serve_def make_Header_def Let_def)

lemma missed_or_hit:
  "missed s r now \<or> (\<exists>d. data (run_c s) (RequestURI r) = Some d \<and> \<not> isCacheStale now (age d) (ttl (run_c s)))"
  by (auto simp: missed_def split: option.splits)

lemma serve_hit:
  assumes get: "Method r = MethodGet"
    and found: "data (run_c s) (RequestURI r) = Some d"
    and fr: "\<not> isCacheStale (now_lookup e) (age d) (ttl (run_c s))"
  shows "serve r e s =
     (\<lparr>wHeader = fresh (heap s), wStatus = Some (status d), wBody = body d, wErr = write_err e\<rparr>,
      s\<lparr>heap := Header_Set (copyHeader (hit_order e) (fresh (heap s)) (header d)
                   (snd (make_Header (heap s) Map.empty))) (fresh (heap s)) ''X-Cache'' XCacheHit,
        trace := trace s @ CacheLookup (RequestURI r) #
                   (case write_err e of None \<Rightarrow> []
                    | Some m \<Rightarrow> [LogPrintf (''can't write to body '' @ m)])\<rparr>)"
proof -
  let ?w = "\<lparr>wHeader = fresh (heap s), wStatus = None, wBody = [], wErr = write_err e\<rparr>"
  let ?s = "s\<lparr>heap := snd (make_Header (heap s) Map.empty)\<rparr>"
  have "serve r e s = handler ?w r e ?s"
    by (simp add: serve_def make_Header_def Let_def)
  also have "\<dots> = writeToResponseCacheHit (hit_order e) ?w d
                     (?s\<lparr>trace := trace ?s @ [CacheLookup (RequestURI r)]\<rparr>)"
    using get found fr by (intro handler_hit) simp_all
  finally show ?thesis
    by (simp add: writeToResponseCacheHit_eq Write_def WriteHeader_def)
qed

lemma serve_miss_captured:
  assumes get: "Method r = MethodGet"
    and miss: "missed s r (now_lookup e)"
    and up: "upstream e = RoundTripResponse code hdr rc"
    and ok: "read_err rc = None" "close_err rc = None"
  shows "serve r e s =
     (\<lparr>wHeader = fresh (heap s), wStatus = Some code, wBody = pending rc, wErr = write_err e\<rparr>,
      s\<lparr>heap := copyHeader (relay_order e) (fresh (heap s)) (Suc (fresh (heap s)))
                   (captured_heap (snd (make_Header (heap s) Map.empty)) hdr),
        run_c := (run_c s)\<lparr>data := (data (run_c s))(RequestURI r \<mapsto>
                  \<lparr>header = Suc (Suc (fresh (heap s))), body = pending rc, age = now_capture e,
                   status = code\<rparr>)\<rparr>,
        run_rp := (run_rp s)\<lparr>ModifyResponse := True\<rparr>,
        trace := trace s @ [CacheLookup (RequestURI r),
                            Forward (Director (run_rp s) r), CacheStore (RequestURI r)]\<rparr>)"
proof -
  let ?w = "\<lparr>wHeader = fresh (heap s), wStatus = None, wBody = [], wErr = write_err e\<rparr>"
  let ?s = "s\<lparr>heap := snd (make_Header (heap s) Map.empty)\<rparr>"
  let ?s1 = "handleMissedCache (?s\<lparr>trace := trace ?s @ [CacheLookup (RequestURI r)]\<rparr>)"
  have m: "missed ?s r (now_lookup e)" using miss by (simp add: missed_def split: option.splits)
  have "serve r e s = handler ?w r e ?s"
    by (simp add: serve_def make_Header_def Let_def)
  also have "\<dots> = ServeHTTP ?w r e ?s1"
    using get m by (rule handler_miss)
  also have "\<dots> = (fst (Write (WriteHeader ?w code) (pending rc)),
      ?s1\<lparr>heap := copyHeader (relay_order e) (wHeader ?w) (fresh (heap ?s1)) (captured_heap (heap ?s1) hdr),
        run_c := (run_c ?s1)\<lparr>data := (data (run_c ?s1))(RequestURI r \<mapsto>
                  \<lparr>header = Suc (fresh (heap ?s1)), body = pending rc, age = now_capture e,
                   status = code\<rparr>)\<rparr>,
        trace := trace ?s1 @ [Forward (Director (run_rp ?s1) r), CacheStore (RequestURI r)]\<rparr>)"
    using up get ok by (intro ServeHTTP_captured) (simp_all add: handleMissedCache_def)
  finally show ?thesis
    by (simp add: Write_def WriteHeader_def handleMissedCache_def make_Header_def Director_def)
qed

lemma serve_effects:
  assumes sv: "serve r e s = (w1, s1)"
  shows "ttl (run_c s1) = ttl (run_c s) \<and>
         (\<forall>k. k \<noteq> RequestURI r \<longrightarrow> data (run_c s1) k = data (run_c s) k) \<and>
         (Method r \<noteq> MethodGet \<longrightarrow> run_c s1 = run_c s \<and> run_rp s1 = run_rp s) \<and>
         (\<exists>evs. trace s1 = trace s @ evs \<and> set (accessed evs) \<subseteq> {RequestURI r} \<and>
                (Method r \<noteq> MethodGet \<longrightarrow>
                   accessed evs = [] \<and> forwarded evs = [Director (run_rp s) r]))"
proof -
  let ?w = "\<lparr>wHeader = fresh (heap s), wStatus = None, wBody = [], wErr = write_err e\<rparr>"
  let ?s = "s\<lparr>heap := snd (make_Header (heap s) Map.empty)\<rparr>"
  let ?s1 = "handleMissedCache (?s\<lparr>trace := trace ?s @ [CacheLookup (RequestURI r)]\<rparr>)"
  show ?thesis
  proof (cases "Method r = MethodGet")
    case False
    then have "ServeHTTP ?w r e ?s = (w1, s1)"
      using sv by (simp add: serve_unfold handler_other_method)
    from ServeHTTP_effects [OF this] False show ?thesis by auto
  next
    case True
    from missed_or_hit [of s r "now_lookup e"] show ?thesis
    proof
      assume m: "missed s r (now_lookup e)"
      then have "missed ?s r (now_lookup e)" by (simp add: missed_def split: option.splits)
      then have "ServeHTTP ?w r e ?s1 = (w1, s1)"
        using sv True by (simp add: serve_unfold handler_miss)
      from ServeHTTP_effects [OF this] obtain evs where
        f: "ttl (run_c s1) = ttl (run_c ?s1)"
           "\<forall>k. k \<noteq> RequestURI r \<longrightarrow> data (run_c s1) k = data (run_c ?s1) k"
        and t: "trace s1 = trace ?s1 @ Forward (Director (run_rp ?s1) r) # evs"
           "set (accessed evs) \<subseteq> {RequestURI r}"
        by blast
      from t have "trace s1 = trace s @ (CacheLookup (RequestURI r) # Forward (Director (run_rp ?s1) r) # evs)
                   \<and> set (accessed (CacheLookup (RequestURI r) # Forward (Director (run_rp ?s1) r) # evs))
                       \<subseteq> {RequestURI r}"
        by (simp add: handleMissedCache_def)
      with f True show ?thesis by (simp add: handleMissedCache_def)
    next
      assume "\<exists>d. data (run_c s) (RequestURI r) = Some d \<and>
                  \<not> isCacheStale (now_lookup e) (age d) (ttl (run_c s))"
      then obtain d where d: "data (run_c s) (RequestURI r) = Some d"
        "\<not> isCacheStale (now_lookup e) (age d) (ttl (run_c s))" by blast
      from serve_hit [OF True d] sv
      have "run_c s1 = run_c s"
        and "trace s1 = trace s @ CacheLookup (RequestURI r) #
                   (case write_err e of None \<Rightarrow> []
                    | Some m \<Rightarrow> [LogPrintf (''can't write to body '' @ m)])"
        by auto
      moreover have "set (accessed (CacheLookup (RequestURI r) #
                   (case write_err e of None \<Rightarrow> []
                    | Some m \<Rightarrow> [LogPrintf (''can't write to body '' @ m)]))) \<subseteq> {RequestURI r}"
        by (simp split: option.splits)
      ultimately show ?thesis using True by simp
    qed
  qed
qed

lemma serve_heap:
  assumes sv: "serve r e s = (w1, s1)"
  shows "fresh (heap s) < fresh (heap s1) \<and> wHeader w1 = fresh (heap s) \<and>
         (\<forall>r'. r' < fresh (heap s) \<longrightarrow> cells (heap s1) r' = cells (heap s) r') \<and>
         (\<forall>k d. data (run_c s1) k = Some d \<longrightarrow>
            data (run_c s) k = Some d \<or>
            (fresh (heap s) \<le> header d \<and> header d < fresh (heap s1) \<and>
             (\<exists>code hdr rc. upstream e = RoundTripResponse code hdr rc \<and>
                 cells (heap s1) (header d) = hdr)))"
proof -
  let ?w = "\<lparr>wHeader = fresh (heap s), wStatus = None, wBody = [], wErr = write_err e\<rparr>"
  let ?s = "s\<lparr>heap := snd (make_Header (heap s) Map.empty)\<rparr>"
  let ?s1 = "handleMissedCache (?s\<lparr>trace := trace ?s @ [CacheLookup (RequestURI r)]\<rparr>)"
  have fwd: ?thesis if "ServeHTTP ?w r e s0 = (w1, s1)"
    and "heap s0 = heap ?s" and "run_c s0 = run_c s" for s0
  proof -
    have "wHeader ?w < fresh (heap s0)" using that(2) by (simp add: make_Header_def)
    from ServeHTTP_heap [OF that(1) this] that(2,3) show ?thesis
      by (simp add: make_Header_def) (metis Suc_leD Suc_le_eq less_Suc_eq nat_less_le)
  qed
  show ?thesis
  proof (cases "Method r = MethodGet")
    case False
    then have "ServeHTTP ?w r e ?s = (w1, s1)"
      using sv by (simp add: serve_unfold handler_other_method)
    then show ?thesis by (rule fwd) simp_all
  next
    case True
    from missed_or_hit [of s r "now_lookup e"] show ?thesis
    proof
      assume m: "missed s r (now_lookup e)"
      then have "missed ?s r (now_lookup e)" by (simp add: missed_def split: option.splits)
      then have "ServeHTTP ?w r e ?s1 = (w1, s1)"
        using sv True by (simp add: serve_unfold handler_miss)
      then show ?thesis by (rule fwd) (simp_all add: handleMissedCache_def)
    next
      assume "\<exists>d. data (run_c s) (RequestURI r) = Some d \<and>
                  \<not> isCacheStale (now_lookup e) (age d) (ttl (run_c s))"
      then obtain d where d: "data (run_c s) (RequestURI r) = Some d"
        "\<not> isCacheStale (now_lookup e) (age d) (ttl (run_c s))" by blast
      from serve_hit [OF True d] sv
      have "run_c s1 = run_c s" and "wHeader w1 = fresh (heap s)"
        and "heap s1 = Header_Set (copyHeader (hit_order e) (fresh (heap s)) (header d)
                   (snd (make_Header (heap s) Map.empty))) (fresh (heap s)) ''X-Cache'' XCacheHit"
        by auto
      then show ?thesis
        by (simp add: fresh_Header_Set fresh_copyHeader cells_Header_Set_other
            cells_copyHeader_other make_Header_def)
    qed
  qed
qed


section \<open>Runs\<close>

lemma cache_ok_init: "cache_ok (run_init t)"
  by (simp add: cache_ok_def run_init_def newCache_def)

lemma cache_ok_step:
  assumes "cache_ok s" and "canonical_op x"
  shows "cache_ok (step x s)"
proof (cases x)
  case (Sweep visits)
  show ?thesis
    unfolding cache_ok_def
  proof (intro allI impI)
    fix k d assume "data (run_c (step x s)) k = Some d"
    then have "data (run_c s) k = Some d"
      using Sweep cleanup_range_subset [of "ttl (run_c s)" visits s k d] by (simp add: data_cleanup)
    with assms(1) show "header d < fresh (heap (step x s)) \<and>
        canonical_keys (cells (heap (step x s)) (header d))"
      using Sweep by (simp add: cache_ok_def cleanup_frame)
  qed
next
  case (Serve r e)
  obtain w1 s1 where sv: "serve r e s = (w1, s1)" by (cases "serve r e s") auto
  note h = serve_heap [OF sv]
  show ?thesis
    unfolding cache_ok_def
  proof (intro allI impI)
    fix k d assume "data (run_c (step x s)) k = Some d"
    then have d: "data (run_c s1) k = Some d" using Serve sv by simp
    note h [THEN conjunct2, THEN conjunct2, THEN conjunct2, rule_format, OF d]
    then have "header d < fresh (heap s1) \<and> canonical_keys (cells (heap s1) (header d))"
    proof
      assume o: "data (run_c s) k = Some d"
      with assms(1) have a: "header d < fresh (heap s)"
        and c: "canonical_keys (cells (heap s) (header d))" by (simp_all add: cache_ok_def)
      note h [THEN conjunct1] h [THEN conjunct2, THEN conjunct2, THEN conjunct1, rule_format, OF a]
      with a c show ?thesis by simp
    next
      assume "fresh (heap s) \<le> header d \<and> header d < fresh (heap s1) \<and>
             (\<exists>code hdr rc. upstream e = RoundTripResponse code hdr rc \<and>
                 cells (heap s1) (header d) = hdr)"
      then obtain code hdr rc where n: "header d < fresh (heap s1)"
        "upstream e = RoundTripResponse code hdr rc" "cells (heap s1) (header d) = hdr"
        by blast
      from assms(2) Serve n(2) have "canonical_keys hdr" by (simp add: canonical_upstream_def)
      with n show ?thesis by simp
    qed
    then show "header d < fresh (heap (step x s)) \<and>
        canonical_keys (cells (heap (step x s)) (header d))"
      using Serve sv by simp
  qed
qed

lemma cache_ok_run_ops:
  "cache_ok s \<Longrightarrow> list_all canonical_op ops \<Longrightarrow> cache_ok (run_ops ops s)"
  unfolding run_ops_def
  by (induction ops arbitrary: s) (simp_all add: cache_ok_step)

lemma ttl_step: "ttl (run_c (step x s)) = ttl (run_c s)"
proof (cases x)
  case (Sweep visits)
  then show ?thesis by (simp add: cleanup_frame)
next
  case (Serve r e)
  obtain w1 s1 where sv: "serve r e s = (w1, s1)" by (cases "serve r e s") auto
  from serve_effects [OF sv, THEN conjunct1] Serve sv show ?thesis by simp
qed

lemma ttl_run_ops: "ttl (run_c (run_ops ops s)) = ttl (run_c s)"
  unfolding run_ops_def by (induction ops arbitrary: s) (simp_all add: ttl_step)



lemma at_most_one: "card {d. m k = Some d} \<le> 1"
proof (cases "m k")
  case None
  then show ?thesis by simp
next
  case (Some a)
  then have "{d. m k = Some d} = {a}" by auto
  then show ?thesis by simp
qed

section \<open>The concrete runs\<close>

lemma ex_miss_init: "missed (run_init t) r now"
  by (simp add: missed_def run_init_def newCache_def)

lemma ex_serve_miss:
  assumes "missed s (ex_request ''GET'' uri) t"
  shows "serve (ex_request ''GET'' uri) (ex_env t ex_upstream) s =
     (\<lparr>wHeader = fresh (heap s), wStatus = Some 200, wBody = ex_body, wErr = None\<rparr>,
      s\<lparr>heap := copyHeader [''Content-Type'', ''X-Cache''] (fresh (heap s)) (Suc (fresh (heap s)))
                   (captured_heap (snd (make_Header (heap s) Map.empty)) ex_header),
        run_c := (run_c s)\<lparr>data := (data (run_c s))(uri \<mapsto>
                  \<lparr>header = Suc (Suc (fresh (heap s))), body = ex_body, age = t, status = 200\<rparr>)\<rparr>,
        run_rp := (run_rp s)\<lparr>ModifyResponse := True\<rparr>,
        trace := trace s @ [CacheLookup uri,
                            Forward (Director (run_rp s) (ex_request ''GET'' uri)), CacheStore uri]\<rparr>)"
  using serve_miss_captured [of "ex_request ''GET'' uri" s "ex_env t ex_upstream" 200 ex_header
      "NopCloser ex_body"] assms
  by (simp add: ex_request_def ex_env_def ex_upstream_def MethodGet_def NopCloser_def)

lemma ex_request_fields: "Method (ex_request m uri) = m \<and> RequestURI (ex_request m uri) = uri"
  by (simp add: ex_request_def)

lemma ex_canonical: "canonical_keys ex_header"
  by (simp add: canonical_keys_def ex_header_def CanonicalMIMEHeaderKey_def validHeaderFieldByte_def
      Let_def)

lemma ex_two_data:
  "data (run_c ex_two) =
     [''/b'' \<mapsto> \<lparr>header = 2, body = ex_body, age = 5000, status = 200\<rparr>,
      ''/c'' \<mapsto> \<lparr>header = 5, body = ex_body, age = 6000, status = 200\<rparr>]"
proof -
  note s1 = ex_serve_miss [where s = "run_init ex_hour" and uri = "''/b''" and t = 5000, OF ex_miss_init]
  let ?s1 = "snd (serve (ex_request ''GET'' ''/b'') (ex_env 5000 ex_upstream) (run_init ex_hour))"
  have m: "missed ?s1 (ex_request ''GET'' ''/c'') 6000"
    by (simp add: s1 missed_def ex_request_fields, simp add: run_init_def newCache_def)
  show ?thesis
    unfolding ex_two_def ex_serve_miss [OF m]
    by (simp add: s1 fresh_copyHeader del: copyHeader.simps,
        simp add: captured_heap_def make_Header_def run_init_def newCache_def eval_nat_numeral
          fresh_copyHeader del: copyHeader.simps)
qed

lemma ex_two_heap:
  "fresh (heap ex_two) = 6 \<and> cells (heap ex_two) 2 = ex_header \<and> cells (heap ex_two) 5 = ex_header"
proof -
  note s1 = ex_serve_miss [where s = "run_init ex_hour" and uri = "''/b''" and t = 5000, OF ex_miss_init]
  let ?s1 = "snd (serve (ex_request ''GET'' ''/b'') (ex_env 5000 ex_upstream) (run_init ex_hour))"
  have m: "missed ?s1 (ex_request ''GET'' ''/c'') 6000"
    by (simp add: s1 missed_def ex_request_fields, simp add: run_init_def newCache_def)
  show ?thesis
    unfolding ex_two_def ex_serve_miss [OF m]
    by (simp add: s1 fresh_copyHeader cells_copyHeader_other del: copyHeader.simps,
        simp add: captured_heap_def make_Header_def run_init_def eval_nat_numeral
          fresh_copyHeader cells_copyHeader_other del: copyHeader.simps)
qed

lemma ex_two_run:
  "ex_two = run_ops [Serve (ex_request ''GET'' ''/b'') (ex_env 5000 ex_upstream),
                     Serve (ex_request ''GET'' ''/c'') (ex_env 6000 ex_upstream)] (run_init ex_hour)"
  by (simp add: ex_two_def run_ops_def)

lemma ex_two_ok: "cache_ok ex_two \<and> ttl (run_c ex_two) = ex_hour"
proof -
  have "list_all canonical_op [Serve (ex_request ''GET'' ''/b'') (ex_env 5000 ex_upstream),
                          Serve (ex_request ''GET'' ''/c'') (ex_env 6000 ex_upstream)]"
    by (simp add: canonical_upstream_def ex_env_def ex_upstream_def ex_canonical)
  from cache_ok_run_ops [OF cache_ok_init this, of ex_hour] show ?thesis
    unfolding ex_two_run by (simp add: ttl_run_ops run_init_def newCache_def)
qed

lemma ex_live_fields:
  "data (run_c ex_live) = data (run_c ex_two) \<and> fresh (heap ex_live) = 8 \<and>
   cells (heap ex_live) 7 = ex_header \<and> cells (heap ex_live) 2 = ex_header"
  by (simp add: ex_live_def make_Header_def ex_two_heap)

lemma ex_cleanup_hour:
  "data (run_c (cleanup ex_hour ex_visits ex_two)) ''/b'' =
     Some \<lparr>header = 2, body = ex_body, age = 5000, status = 200\<rparr> \<and>
   data (run_c (cleanup ex_hour ex_visits ex_two)) ''/c'' = None"
  by (simp add: data_cleanup ex_visits_def ex_two_data isCacheStale_iff)

lemma ex_tagged_serve:
  "serve (ex_request ''GET'' ''/x'') ex_tagged_env (run_init ex_hour) =
     (\<lparr>wHeader = 0, wStatus = Some 200, wBody = ex_body, wErr = None\<rparr>,
      (run_init ex_hour)\<lparr>heap := copyHeader [''X-Cache''] 0 (Suc 0)
                   (captured_heap (snd (make_Header (heap (run_init ex_hour)) Map.empty))
                      [''X-Cache'' \<mapsto> [''HIT'']]),
        run_c := (run_c (run_init ex_hour))\<lparr>data := (data (run_c (run_init ex_hour)))(''/x'' \<mapsto>
                  \<lparr>header = Suc (Suc 0), body = ex_body, age = 0, status = 200\<rparr>)\<rparr>,
        run_rp := (run_rp (run_init ex_hour))\<lparr>ModifyResponse := True\<rparr>,
        trace := trace (run_init ex_hour) @ [CacheLookup ''/x'',
                            Forward (Director (run_rp (run_init ex_hour)) (ex_request ''GET'' ''/x'')),
                            CacheStore ''/x'']\<rparr>)"
  using serve_miss_captured [of "ex_request ''GET'' ''/x''" "run_init ex_hour" ex_tagged_env 200
      "[''X-Cache'' \<mapsto> [''HIT'']]" "NopCloser ex_body"]
  by (simp add: ex_miss_init ex_request_fields ex_tagged_env_def ex_tagged_upstream_def
      MethodGet_def NopCloser_def del: copyHeader.simps,
      simp add: run_init_def del: copyHeader.simps)

section \<open>C1: the second GET within the time to live\<close>



section \<open>C2: one key for the lookup and for the store\<close>



section \<open>C3: a hit is written from the entry, a miss goes to the forwarder\<close>



section \<open>C4: freshness\<close>

text \<open>
  C4, as the code has it: \<^verbatim>\<open>isCacheStale\<close> is \<^verbatim>\<open>time.Now().After(a.Add(ttl))\<close>, and
  \<^verbatim>\<open>After\<close> is strict. An entry is stale exactly when \<open>createdAt + ttl < now\<close> and fresh
  exactly when \<open>now \<le> createdAt + ttl\<close>; at the instant \<open>now = createdAt + ttl\<close> it is
  still fresh. The two places that ask treat it so: the handler serves an entry from the
  cache exactly when \<open>now \<le> createdAt + ttl\<close>, and a cleanup visit deletes it exactly when
  \<open>createdAt + ttl < now\<close>.
\<close>

theorem C4_fresh_iff_not_after:
  assumes "data (run_c s) (RequestURI r) = Some d"
  shows "(\<not> isCacheStale now (age d) t \<longleftrightarrow> now \<le> age d + t) \<and>
         (isCacheStale now (age d) t \<longleftrightarrow> age d + t < now) \<and>
         \<not> isCacheStale (age d + t) (age d) t \<and>
         (\<not> missed s r now \<longleftrightarrow> now \<le> age d + ttl (run_c s)) \<and>
         (data (run_c (cleanup t [(RequestURI r, now)] s)) (RequestURI r) = None
            \<longleftrightarrow> age d + t < now)"
  using assms
  by (auto simp: isCacheStale_iff missed_def data_cleanup)

text \<open>
  C4 at the entry of \<^verbatim>\<open>/b\<close>, created at 5 microseconds, at the instant one hour later: the
  handler does not miss, and a cleanup visit leaves the entry.
\<close>

theorem C4_boundary_witness:
  "data (run_c ex_two) (RequestURI (ex_request ''GET'' ''/b'')) =
     Some \<lparr>header = 2, body = ex_body, age = 5000, status = 200\<rparr> \<and>
   \<not> isCacheStale (5000 + ex_hour) 5000 ex_hour \<and>
   \<not> missed ex_two (ex_request ''GET'' ''/b'') (5000 + ex_hour) \<and>
   data (run_c (cleanup ex_hour [(''/b'', 5000 + ex_hour)] ex_two)) ''/b'' \<noteq> None"
proof -
  let ?r = "ex_request ''GET'' ''/b''"
  let ?d = "\<lparr>header = 2, body = ex_body, age = 5000, status = 200\<rparr>"
  have d: "data (run_c ex_two) (RequestURI ?r) = Some ?d"
    by (simp add: ex_request_fields ex_two_data)
  note T = C4_fresh_iff_not_after [OF d, of "5000 + ex_hour" ex_hour]
  have 1: "\<not> isCacheStale (5000 + ex_hour) 5000 ex_hour"
    using T [THEN conjunct1] by simp
  have 2: "\<not> missed ex_two ?r (5000 + ex_hour)"
    using T [THEN conjunct2, THEN conjunct2, THEN conjunct2, THEN conjunct1] ex_two_ok by simp
  have 3: "data (run_c (cleanup ex_hour [(''/b'', 5000 + ex_hour)] ex_two)) ''/b'' \<noteq> None"
    using T [THEN conjunct2, THEN conjunct2, THEN conjunct2, THEN conjunct2]
    by (simp add: ex_request_fields)
  from d 1 2 3 show ?thesis by simp
qed

text \<open>
  C4 as the specification words it (stale at \<open>now = createdAt + ttl\<close>) fails: an entry created
  at 5 microseconds with a time to live of one hour is not stale one hour later.
\<close>

theorem C4_boundary_counterexample:
  "(3600000005000 :: int) = 5000 + ex_hour \<and> \<not> isCacheStale 3600000005000 5000 ex_hour"
  by (simp add: isCacheStale_iff ex_hour_def)

section \<open>C5: the cleanup pass\<close>

text \<open>
  C5, as the code has it. \<^verbatim>\<open>cleanup\<close> holds the write lock for the whole pass (the pass is
  one step here), and \<^verbatim>\<open>isCacheStale\<close> reads the clock anew for every entry. Each entry
  of the map is visited once and is deleted exactly when \<open>createdAt + ttl\<close> is before the
  reading taken for it; an entry that stays is unchanged, and no entry appears. With \<open>lo\<close>
  and \<open>hi\<close> bounds of the readings of the pass: every entry with \<open>createdAt + ttl < lo\<close> is
  deleted, no entry with \<open>hi \<le> createdAt + ttl\<close> is deleted, and every entry left after the
  pass has \<open>lo \<le> createdAt + ttl\<close>, so none that was stale when the pass started remains.
  When the clock does not move during the pass (\<open>lo = hi = now\<close>) these are the two halves
  of the specification's sentence.
\<close>

theorem C5_cleanup_deletes_by_reading:
  assumes ro: "range_order (map fst visits) (data (run_c s))"
    and bounds: "\<forall>now \<in> snd ` set visits. lo \<le> now \<and> now \<le> hi"
  shows "(\<forall>key d. data (run_c s) key = Some d \<longrightarrow>
            (\<exists>now. (key, now) \<in> set visits \<and>
               data (run_c (cleanup t visits s)) key =
                 (if age d + t < now then None else Some d)) \<and>
            (age d + t < lo \<longrightarrow> data (run_c (cleanup t visits s)) key = None) \<and>
            (hi \<le> age d + t \<longrightarrow> data (run_c (cleanup t visits s)) key = Some d)) \<and>
         (\<forall>key. data (run_c s) key = None \<longrightarrow> data (run_c (cleanup t visits s)) key = None) \<and>
         (\<forall>key d. data (run_c (cleanup t visits s)) key = Some d \<longrightarrow>
            data (run_c s) key = Some d \<and> lo \<le> age d + t)"
proof -
  have dist: "distinct (map fst visits)" and keys: "fst ` set visits = dom (data (run_c s))"
    using ro by (simp_all add: range_order_def)
  have visited: "\<exists>now. (key, now) \<in> set visits \<and> lo \<le> now \<and> now \<le> hi \<and>
           data (run_c (cleanup t visits s)) key = (if age d + t < now then None else Some d)"
    if "data (run_c s) key = Some d" for key d
  proof -
    from that keys have "key \<in> fst ` set visits" by auto
    then obtain now where v: "(key, now) \<in> set visits" by auto
    with bounds have "lo \<le> now \<and> now \<le> hi" by force
    with v cleanup_range_visited [OF dist v that, of t] show ?thesis
      by (auto simp: data_cleanup isCacheStale_iff)
  qed
  have a: "\<forall>key d. data (run_c s) key = Some d \<longrightarrow>
            (\<exists>now. (key, now) \<in> set visits \<and>
               data (run_c (cleanup t visits s)) key =
                 (if age d + t < now then None else Some d)) \<and>
            (age d + t < lo \<longrightarrow> data (run_c (cleanup t visits s)) key = None) \<and>
            (hi \<le> age d + t \<longrightarrow> data (run_c (cleanup t visits s)) key = Some d)"
  proof (intro allI impI)
    fix key d assume h: "data (run_c s) key = Some d"
    from visited [OF h] obtain now where
      n: "(key, now) \<in> set visits" "lo \<le> now" "now \<le> hi"
         "data (run_c (cleanup t visits s)) key = (if age d + t < now then None else Some d)"
      by blast
    show "(\<exists>now. (key, now) \<in> set visits \<and>
               data (run_c (cleanup t visits s)) key =
                 (if age d + t < now then None else Some d)) \<and>
            (age d + t < lo \<longrightarrow> data (run_c (cleanup t visits s)) key = None) \<and>
            (hi \<le> age d + t \<longrightarrow> data (run_c (cleanup t visits s)) key = Some d)"
      using n by auto
  qed
  have b: "\<forall>key. data (run_c s) key = None \<longrightarrow> data (run_c (cleanup t visits s)) key = None"
    by (simp add: data_cleanup cleanup_range_None)
  have c: "\<forall>key d. data (run_c (cleanup t visits s)) key = Some d \<longrightarrow>
            data (run_c s) key = Some d \<and> lo \<le> age d + t"
  proof (intro allI impI)
    fix key d assume h: "data (run_c (cleanup t visits s)) key = Some d"
    then obtain d0 where d0: "data (run_c s) key = Some d0"
      using b by (cases "data (run_c s) key") auto
    from visited [OF d0] h show "data (run_c s) key = Some d \<and> lo \<le> age d + t"
      using d0 by (auto split: if_splits)
  qed
  from a b c show ?thesis by blast
qed

text \<open>
  C5 at the two entries, with a time to live of one hour: a pass two hours after the start
  deletes both, a pass after 100 microseconds leaves the second one (and the first), and a
  key that is not in the map stays out.
\<close>

theorem C5_cleanup_witness:
  "range_order (map fst ex_late) (data (run_c ex_two)) \<and>
   range_order (map fst ex_early) (data (run_c ex_two)) \<and>
   data (run_c (cleanup ex_hour ex_late ex_two)) ''/b'' = None \<and>
   data (run_c (cleanup ex_hour ex_late ex_two)) ''/c'' = None \<and>
   data (run_c (cleanup ex_hour ex_early ex_two)) ''/c'' =
     Some \<lparr>header = 5, body = ex_body, age = 6000, status = 200\<rparr> \<and>
   data (run_c (cleanup ex_hour ex_late ex_two)) ''/a'' = None"
proof -
  have rl: "range_order (map fst ex_late) (data (run_c ex_two))"
    and re: "range_order (map fst ex_early) (data (run_c ex_two))"
    by (auto simp: range_order_def ex_late_def ex_early_def ex_two_data)
  have bl: "\<forall>now \<in> snd ` set ex_late. 2 * ex_hour \<le> now \<and> now \<le> 2 * ex_hour + 1000"
    by (simp add: ex_late_def)
  have be: "\<forall>now \<in> snd ` set ex_early. 100000 \<le> now \<and> now \<le> 101000"
    by (simp add: ex_early_def)
  have b: "data (run_c ex_two) ''/b'' = Some \<lparr>header = 2, body = ex_body, age = 5000, status = 200\<rparr>"
    and c: "data (run_c ex_two) ''/c'' = Some \<lparr>header = 5, body = ex_body, age = 6000, status = 200\<rparr>"
    and a: "data (run_c ex_two) ''/a'' = None"
    by (simp_all add: ex_two_data)
  note L = C5_cleanup_deletes_by_reading [OF rl bl, of ex_hour]
  note E = C5_cleanup_deletes_by_reading [OF re be, of ex_hour]
  have "data (run_c (cleanup ex_hour ex_late ex_two)) ''/b'' = None"
    using L [THEN conjunct1, rule_format, OF b, THEN conjunct2, THEN conjunct1]
    by (simp add: ex_hour_def)
  moreover have "data (run_c (cleanup ex_hour ex_late ex_two)) ''/c'' = None"
    using L [THEN conjunct1, rule_format, OF c, THEN conjunct2, THEN conjunct1]
    by (simp add: ex_hour_def)
  moreover have "data (run_c (cleanup ex_hour ex_late ex_two)) ''/a'' = None"
    using L [THEN conjunct2, THEN conjunct1, rule_format, OF a] .
  moreover have "data (run_c (cleanup ex_hour ex_early ex_two)) ''/c'' =
     Some \<lparr>header = 5, body = ex_body, age = 6000, status = 200\<rparr>"
    using E [THEN conjunct1, rule_format, OF c, THEN conjunct2, THEN conjunct2]
    by (simp add: ex_hour_def)
  ultimately show ?thesis using rl re by simp
qed

text \<open>
  C5 with one \<open>now\<close> for the whole pass fails when the clock moves between two visits.
  The time to live is one hour. The entry created at 5 microseconds is looked at when the
  clock reads one hour and 5 microseconds, and stays; the entry created at 6 microseconds is
  looked at 2 microseconds later, and is deleted. No single \<open>now\<close> has the first one not
  yet stale and the second one stale.
\<close>

theorem C5_single_now_counterexample:
  "\<not> (\<exists>now. \<forall>key d. data (run_c ex_two) key = Some d \<longrightarrow>
         (age d + ex_hour < now \<longrightarrow> data (run_c (cleanup ex_hour ex_visits ex_two)) key = None) \<and>
         (now \<le> age d + ex_hour \<longrightarrow> data (run_c (cleanup ex_hour ex_visits ex_two)) key \<noteq> None))"
proof
  assume "\<exists>now. \<forall>key d. data (run_c ex_two) key = Some d \<longrightarrow>
         (age d + ex_hour < now \<longrightarrow> data (run_c (cleanup ex_hour ex_visits ex_two)) key = None) \<and>
         (now \<le> age d + ex_hour \<longrightarrow> data (run_c (cleanup ex_hour ex_visits ex_two)) key \<noteq> None)"
  then obtain now where h: "\<And>key d. data (run_c ex_two) key = Some d \<Longrightarrow>
         (age d + ex_hour < now \<longrightarrow> data (run_c (cleanup ex_hour ex_visits ex_two)) key = None) \<and>
         (now \<le> age d + ex_hour \<longrightarrow> data (run_c (cleanup ex_hour ex_visits ex_two)) key \<noteq> None)"
    by blast
  have b: "data (run_c ex_two) ''/b'' = Some \<lparr>header = 2, body = ex_body, age = 5000, status = 200\<rparr>"
    and c: "data (run_c ex_two) ''/c'' = Some \<lparr>header = 5, body = ex_body, age = 6000, status = 200\<rparr>"
    by (simp_all add: ex_two_data)
  have "\<not> ex_hour + 5000 < now"
    using h [OF b, THEN conjunct1] ex_cleanup_hour [THEN conjunct1] by simp
  moreover have "\<not> now \<le> ex_hour + 6000"
    using h [OF c, THEN conjunct2] ex_cleanup_hour [THEN conjunct2] by simp
  ultimately show False by simp
qed

section \<open>C6: a failed capture\<close>



section \<open>C7: other methods\<close>

text \<open>
  C7. A request whose method is not GET makes no lookup, no store and no deletion; the
  cache is the same before and after, whatever it holds for the resource; the request goes
  to the forwarder once; and the closure of \<^verbatim>\<open>handleMissedCache\<close>, when it is installed
  and sees the response, returns at once and changes nothing.
\<close>

theorem C7_other_methods_bypass_cache:
  assumes ng: "Method r \<noteq> MethodGet" and sv: "serve r e s = (w, s1)"
  shows "run_c s1 = run_c s \<and>
         (\<exists>evs. trace s1 = trace s @ evs \<and> accessed evs = [] \<and>
                forwarded evs = [Director (run_rp s) r]) \<and>
         (\<forall>res now st. Method (Request res) = Method r \<longrightarrow>
            ModifyResponse_closure res now st = (None, res, st))"
proof -
  note e = serve_effects [OF sv]
  have a: "run_c s1 = run_c s"
    using e [THEN conjunct2, THEN conjunct2, THEN conjunct1] ng by simp
  have b: "\<exists>evs. trace s1 = trace s @ evs \<and> accessed evs = [] \<and>
                forwarded evs = [Director (run_rp s) r]"
    using e [THEN conjunct2, THEN conjunct2, THEN conjunct2] ng by auto
  have c: "\<forall>res now st. Method (Request res) = Method r \<longrightarrow>
            ModifyResponse_closure res now st = (None, res, st)"
    using ng by (simp add: closure_not_GET)
  from a b c show ?thesis by blast
qed

text \<open>
  C7 at \<^verbatim>\<open>POST /b\<close> while the cache holds an entry for \<^verbatim>\<open>/b\<close>.
\<close>

theorem C7_POST_witness:
  "Method (ex_request ''POST'' ''/b'') \<noteq> MethodGet \<and>
   data (run_c ex_two) ''/b'' = Some \<lparr>header = 2, body = ex_body, age = 5000, status = 200\<rparr> \<and>
   run_c (snd (serve (ex_request ''POST'' ''/b'') (ex_env 7000 ex_upstream) ex_two)) = run_c ex_two"
proof -
  have ng: "Method (ex_request ''POST'' ''/b'') \<noteq> MethodGet"
    by (simp add: ex_request_def MethodGet_def)
  have sv: "serve (ex_request ''POST'' ''/b'') (ex_env 7000 ex_upstream) ex_two =
      (fst (serve (ex_request ''POST'' ''/b'') (ex_env 7000 ex_upstream) ex_two),
       snd (serve (ex_request ''POST'' ''/b'') (ex_env 7000 ex_upstream) ex_two))"
    by simp
  from C7_other_methods_bypass_cache [OF ng sv, THEN conjunct1] ng show ?thesis
    by (simp add: ex_two_data)
qed

section \<open>C8: the store overwrites\<close>

text \<open>
  C8. After \<open>Store key e\<close> the entry under \<open>key\<close> is \<open>e\<close>, whether or not there was
  one; every other key is as before; the keys are those of before and \<open>key\<close>; what was
  under \<open>key\<close> has no part in the result. A successful \<^verbatim>\<open>saveCacheData\<close> is such a store,
  of the entry built from the response. After every run the map holds at most one entry
  under a key.
\<close>

theorem C8_store_replaces_whole_entry:
  "data (run_c (Store key e s)) key = Some e \<and>
   (\<forall>k. k \<noteq> key \<longrightarrow> data (run_c (Store key e s)) k = data (run_c s) k) \<and>
   dom (data (run_c (Store key e s))) = insert key (dom (data (run_c s))) \<and>
   (\<forall>old. run_c (Store key e (s\<lparr>run_c := (run_c s)\<lparr>data := (data (run_c s))(key \<mapsto> old)\<rparr>\<rparr>)) =
          run_c (Store key e s)) \<and>
   (\<forall>res x now err res1 s1.
      read_err (Body res) = None \<and> close_err (Body res) = None \<and>
      saveCacheData res x now s = (err, res1, s1) \<longrightarrow>
      run_c s1 = run_c (Store (RequestURI (Request res))
                   \<lparr>header = fresh (heap s), body = pending (Body res), age = now,
                    status = StatusCode res\<rparr> s)) \<and>
   (\<forall>ops k. card {d. data (run_c (run_ops ops s)) k = Some d} \<le> 1)"
proof -
  have "\<forall>res x now err res1 s1.
      read_err (Body res) = None \<and> close_err (Body res) = None \<and>
      saveCacheData res x now s = (err, res1, s1) \<longrightarrow>
      run_c s1 = run_c (Store (RequestURI (Request res))
                   \<lparr>header = fresh (heap s), body = pending (Body res), age = now,
                    status = StatusCode res\<rparr> s)"
    by (auto simp: saveCacheData_success Store_def)
  moreover have "\<forall>ops k. card {d. data (run_c (run_ops ops s)) k = Some d} \<le> 1"
    by (intro allI at_most_one)
  ultimately show ?thesis
    by (simp add: Store_def)
qed

text \<open>
  C8 at a store over the entry of \<^verbatim>\<open>/b\<close>, and at a capture of a 404 for \<^verbatim>\<open>/b\<close>.
\<close>

theorem C8_overwrite_witness:
  "data (run_c ex_live) ''/b'' = Some \<lparr>header = 2, body = ex_body, age = 5000, status = 200\<rparr> \<and>
   data (run_c (Store ''/b'' \<lparr>header = 9, body = [], age = 7000, status = 404\<rparr> ex_live)) ''/b'' =
     Some \<lparr>header = 9, body = [], age = 7000, status = 404\<rparr> \<and>
   data (run_c (Store ''/b'' \<lparr>header = 9, body = [], age = 7000, status = 404\<rparr> ex_live)) ''/c'' =
     Some \<lparr>header = 5, body = ex_body, age = 6000, status = 200\<rparr> \<and>
   data (run_c (snd (snd (saveCacheData (ex_response (NopCloser [])) XCacheMiss 7000 ex_live)))) ''/b'' =
     Some \<lparr>header = fresh (heap ex_live), body = [], age = 7000, status = 404\<rparr>"
proof -
  note T = C8_store_replaces_whole_entry [of "''/b''" "\<lparr>header = 9, body = [], age = 7000, status = 404\<rparr>" ex_live]
  have ne: "''/c'' \<noteq> ''/b''" by simp
  have 1: "data (run_c (Store ''/b'' \<lparr>header = 9, body = [], age = 7000, status = 404\<rparr> ex_live)) ''/b'' =
     Some \<lparr>header = 9, body = [], age = 7000, status = 404\<rparr>"
    using T [THEN conjunct1] .
  have 2: "data (run_c (Store ''/b'' \<lparr>header = 9, body = [], age = 7000, status = 404\<rparr> ex_live)) ''/c'' =
     Some \<lparr>header = 5, body = ex_body, age = 6000, status = 200\<rparr>"
    using T [THEN conjunct2, THEN conjunct1, rule_format, OF ne] by (simp add: ex_live_fields ex_two_data)
  let ?res = "ex_response (NopCloser [])"
  let ?sv = "saveCacheData ?res XCacheMiss 7000 ex_live"
  have h: "read_err (Body ?res) = None \<and> close_err (Body ?res) = None \<and>
      ?sv = (fst ?sv, fst (snd ?sv), snd (snd ?sv))"
    by (simp add: ex_response_def NopCloser_def saveCacheData_success)
  have 3: "data (run_c (snd (snd ?sv))) ''/b'' =
     Some \<lparr>header = fresh (heap ex_live), body = [], age = 7000, status = 404\<rparr>"
    using T [THEN conjunct2, THEN conjunct2, THEN conjunct2, THEN conjunct2, THEN conjunct1,
        rule_format, OF h]
    by (simp add: Store_def ex_response_def NopCloser_def Director_keeps ex_request_fields)
  from 1 2 3 show ?thesis by (simp add: ex_live_fields ex_two_data)
qed

section \<open>C9: the body is buffered and replayed\<close>

text \<open>
  C9. In a successful capture the bytes that \<^verbatim>\<open>io.ReadAll\<close> returns are all the bytes of
  the body; the entry holds exactly these; the body of the response becomes a reader over
  them with a \<^verbatim>\<open>Close\<close> that cannot fail, so reading it yields the same bytes; and the
  forwarder, which copies the body after the capture, hands the client these bytes.
\<close>

theorem C9_capture_buffers_and_replays:
  assumes ok: "read_err (Body res) = None" "close_err (Body res) = None"
    and sv: "saveCacheData res x now s = (err, res1, s1)"
  shows "err = None \<and>
         (\<exists>d. data (run_c s1) (RequestURI (Request res)) = Some d \<and> body d = pending (Body res)) \<and>
         Body res1 = NopCloser (pending (Body res)) \<and>
         ReadAll (Body res1) = (pending (Body res), None, NopCloser []) \<and>
         Close (Body res1) = None \<and>
         (\<forall>w r e s0 code hdr w1 s2.
            upstream e = RoundTripResponse code hdr (Body res) \<and> Method r = MethodGet \<and>
            ModifyResponse (run_rp s0) \<and> ServeHTTP w r e s0 = (w1, s2) \<longrightarrow>
            wBody w1 = wBody w @ pending (Body res) \<and>
            (\<exists>d. data (run_c s2) (RequestURI r) = Some d \<and> body d = pending (Body res)))"
proof -
  have a: "err = None \<and>
         (\<exists>d. data (run_c s1) (RequestURI (Request res)) = Some d \<and> body d = pending (Body res)) \<and>
         Body res1 = NopCloser (pending (Body res)) \<and>
         ReadAll (Body res1) = (pending (Body res), None, NopCloser []) \<and>
         Close (Body res1) = None"
    using saveCacheData_success [OF ok, of x now s] sv
    by (auto simp: ReadAll_def Close_def NopCloser_def)
  have b: "wBody w1 = wBody w @ pending (Body res) \<and>
            (\<exists>d. data (run_c s2) (RequestURI r) = Some d \<and> body d = pending (Body res))"
    if "upstream e = RoundTripResponse code hdr (Body res)" "Method r = MethodGet"
       "ModifyResponse (run_rp s0)" "ServeHTTP w r e s0 = (w1, s2)"
    for w r e s0 code hdr w1 s2
    using ServeHTTP_captured [OF that(1) that(3) that(2) ok, of w] that(4)
    by (auto simp: Write_def WriteHeader_fields)
  from a b show ?thesis by blast
qed

text \<open>
  C9 at a response for \<^verbatim>\<open>GET /b\<close> with a body of two bytes.
\<close>

theorem C9_capture_witness:
  "read_err (Body (ex_response (NopCloser ex_body))) = None \<and>
   close_err (Body (ex_response (NopCloser ex_body))) = None \<and>
   fst (saveCacheData (ex_response (NopCloser ex_body)) XCacheMiss 7000 ex_live) = None \<and>
   Body (fst (snd (saveCacheData (ex_response (NopCloser ex_body)) XCacheMiss 7000 ex_live))) =
     NopCloser ex_body \<and>
   ReadAll (Body (fst (snd (saveCacheData (ex_response (NopCloser ex_body)) XCacheMiss 7000 ex_live)))) =
     (ex_body, None, NopCloser [])"
proof -
  let ?res = "ex_response (NopCloser ex_body)"
  let ?sv = "saveCacheData ?res XCacheMiss 7000 ex_live"
  have ok: "read_err (Body ?res) = None" "close_err (Body ?res) = None"
    by (simp_all add: ex_response_def NopCloser_def)
  have sv: "?sv = (fst ?sv, fst (snd ?sv), snd (snd ?sv))" by simp
  note T = C9_capture_buffers_and_replays [OF ok sv]
  from T [THEN conjunct1] T [THEN conjunct2, THEN conjunct2, THEN conjunct1]
    T [THEN conjunct2, THEN conjunct2, THEN conjunct2, THEN conjunct1] ok
  show ?thesis
    by (simp add: ex_response_def NopCloser_def)
qed

section \<open>C10: the snapshot and the tag\<close>

text \<open>
  C10, as the code has it. \<^verbatim>\<open>res.Header.Clone()\<close> allocates the snapshot before
  \<^verbatim>\<open>res.Header.Add("X-Cache", "MISS")\<close> changes the live map, and the two are different
  maps: the snapshot is the header map of the upstream response as it arrived, the tag that
  the capture adds is not in it, and no later \<^verbatim>\<open>Add\<close> to the live map reaches it. Its
  \<^verbatim>\<open>X-Cache\<close> values are those the upstream sent, none when the upstream sent none. A hit
  always carries the one \<^verbatim>\<open>X-Cache\<close> value \<^verbatim>\<open>HIT\<close>, because \<^verbatim>\<open>Set\<close> replaces whatever the
  copy of the snapshot put under the key; and since \<^verbatim>\<open>Add\<close> and \<^verbatim>\<open>Set\<close> write canonical
  keys only, no other key of the response spells \<^verbatim>\<open>X-Cache\<close> in another case (the writer
  starts with canonical keys: the server hands the handler an empty map).
\<close>

theorem C10_snapshot_excludes_added_tag:
  assumes ok: "read_err (Body res) = None" "close_err (Body res) = None"
    and alloc: "Header res < fresh (heap s)"
    and sv: "saveCacheData res XCacheMiss now s = (err, res1, s1)"
  shows "(\<exists>d. data (run_c s1) (RequestURI (Request res)) = Some d \<and>
              header d \<noteq> Header res1 \<and>
              cells (heap s1) (header d) = cells (heap s) (Header res) \<and>
              index (cells (heap s1) (header d)) ''X-Cache'' =
                index (cells (heap s) (Header res)) ''X-Cache'' \<and>
              (\<forall>k v. cells (Header_Add (heap s1) (Header res1) k v) (header d) =
                     cells (heap s1) (header d))) \<and>
         cells (heap s1) (Header res1) =
           MIMEHeader_Add (cells (heap s) (Header res)) ''X-Cache'' XCacheMiss \<and>
         index (cells (heap s1) (Header res1)) ''X-Cache'' =
           index (cells (heap s) (Header res)) ''X-Cache'' @ [XCacheMiss] \<and>
         (\<forall>ks w d st. index (cells (heap (snd (writeToResponseCacheHit ks w d st)))
                                (wHeader (fst (writeToResponseCacheHit ks w d st)))) ''X-Cache'' =
                        [XCacheHit]) \<and>
         (\<forall>ks w d st k.
            canonical_keys (cells (heap st) (wHeader w)) \<and>
            k \<in> dom (cells (heap (snd (writeToResponseCacheHit ks w d st)))
                          (wHeader (fst (writeToResponseCacheHit ks w d st)))) \<and>
            CanonicalMIMEHeaderKey k = ''X-Cache'' \<longrightarrow> k = ''X-Cache'')"
proof -
  from saveCacheData_success [OF ok, of XCacheMiss now s] sv
  have s1: "s1 = s\<lparr>heap := Header_Add (snd (Header_Clone (heap s) (Header res))) (Header res) ''X-Cache'' XCacheMiss,
       run_c := (run_c s)\<lparr>data := (data (run_c s))(RequestURI (Request res) \<mapsto>
                  \<lparr>header = fresh (heap s), body = pending (Body res), age = now,
                   status = StatusCode res\<rparr>)\<rparr>,
       trace := trace s @ [CacheStore (RequestURI (Request res))]\<rparr>"
    and r1: "Header res1 = Header res"
    by auto
  have ne: "fresh (heap s) \<noteq> Header res" using alloc by simp
  have live: "cells (heap s1) (Header res1) =
           MIMEHeader_Add (cells (heap s) (Header res)) ''X-Cache'' XCacheMiss"
    using ne by (simp add: s1 r1 Header_Add_def Header_Clone_def make_Header_def)
  have snap: "cells (heap s1) (fresh (heap s)) = cells (heap s) (Header res)"
    using ne by (simp add: s1 Header_Add_def Header_Clone_def make_Header_def)
  have a: "\<exists>d. data (run_c s1) (RequestURI (Request res)) = Some d \<and>
              header d \<noteq> Header res1 \<and>
              cells (heap s1) (header d) = cells (heap s) (Header res) \<and>
              index (cells (heap s1) (header d)) ''X-Cache'' =
                index (cells (heap s) (Header res)) ''X-Cache'' \<and>
              (\<forall>k v. cells (Header_Add (heap s1) (Header res1) k v) (header d) =
                     cells (heap s1) (header d))"
    using ne snap r1 by (simp add: s1 cells_Header_Add_other)
  have b: "index (cells (heap s1) (Header res1)) ''X-Cache'' =
           index (cells (heap s) (Header res)) ''X-Cache'' @ [XCacheMiss]"
    by (simp add: live MIMEHeader_Add_def canon_XCache index_def Let_def)
  have c: "\<forall>ks w d st. index (cells (heap (snd (writeToResponseCacheHit ks w d st)))
                                (wHeader (fst (writeToResponseCacheHit ks w d st)))) ''X-Cache'' =
                        [XCacheHit]"
    by (simp add: writeToResponseCacheHit_eq Write_def WriteHeader_fields index_Header_Set canon_XCache)
  have d: "\<forall>ks w d st k.
            canonical_keys (cells (heap st) (wHeader w)) \<and>
            k \<in> dom (cells (heap (snd (writeToResponseCacheHit ks w d st)))
                          (wHeader (fst (writeToResponseCacheHit ks w d st)))) \<and>
            CanonicalMIMEHeaderKey k = ''X-Cache'' \<longrightarrow> k = ''X-Cache''"
  proof (intro allI impI)
    fix ks w d st k
    assume h: "canonical_keys (cells (heap st) (wHeader w)) \<and>
            k \<in> dom (cells (heap (snd (writeToResponseCacheHit ks w d st)))
                          (wHeader (fst (writeToResponseCacheHit ks w d st)))) \<and>
            CanonicalMIMEHeaderKey k = ''X-Cache''"
    from h hit_keys_canonical [of st w ks d]
    have "\<forall>k \<in> dom (cells (heap (snd (writeToResponseCacheHit ks w d st)))
                          (wHeader (fst (writeToResponseCacheHit ks w d st)))).
            CanonicalMIMEHeaderKey k = k"
      by (simp add: canonical_keys_def)
    with h have "CanonicalMIMEHeaderKey k = k" by blast
    with h show "k = ''X-Cache''" by simp
  qed
  from a live b c d show ?thesis by blast
qed

text \<open>
  C10 at a response for \<^verbatim>\<open>GET /b\<close> whose upstream sent no \<^verbatim>\<open>X-Cache\<close>.
\<close>

theorem C10_snapshot_witness:
  "read_err (Body (ex_response (NopCloser ex_body))) = None \<and>
   close_err (Body (ex_response (NopCloser ex_body))) = None \<and>
   Header (ex_response (NopCloser ex_body)) < fresh (heap ex_live) \<and>
   index (cells (heap (snd (snd (saveCacheData (ex_response (NopCloser ex_body)) XCacheMiss 7000 ex_live))))
           (Header (fst (snd (saveCacheData (ex_response (NopCloser ex_body)) XCacheMiss 7000 ex_live)))))
     ''X-Cache'' = [''MISS'']"
proof -
  let ?res = "ex_response (NopCloser ex_body)"
  let ?sv = "saveCacheData ?res XCacheMiss 7000 ex_live"
  have ok: "read_err (Body ?res) = None" "close_err (Body ?res) = None"
    by (simp_all add: ex_response_def NopCloser_def)
  have al: "Header ?res < fresh (heap ex_live)"
    by (simp add: ex_response_def ex_live_fields)
  have sv: "?sv = (fst ?sv, fst (snd ?sv), snd (snd ?sv))" by simp
  note T = C10_snapshot_excludes_added_tag [OF ok al sv]
  have "index (cells (heap ex_live) (Header ?res)) ''X-Cache'' = []"
    by (simp add: ex_response_def ex_live_fields ex_header_def index_def)
  with T [THEN conjunct2, THEN conjunct2, THEN conjunct1] ok al show ?thesis
    by (simp add: XCacheMiss_def)
qed

text \<open>
  C10 as the specification words it (the snapshot never holds a freshness tag) fails when
  the upstream tags its own responses: after \<^verbatim>\<open>GET /x\<close> to an upstream that answers with
  \<^verbatim>\<open>X-Cache: HIT\<close>, the snapshot of the entry holds \<^verbatim>\<open>X-Cache: HIT\<close>.
\<close>

theorem C10_upstream_tag_counterexample:
  "data (run_c (snd (serve (ex_request ''GET'' ''/x'') ex_tagged_env (run_init ex_hour)))) ''/x'' =
     Some \<lparr>header = 2, body = ex_body, age = 0, status = 200\<rparr> \<and>
   index (cells (heap (snd (serve (ex_request ''GET'' ''/x'') ex_tagged_env (run_init ex_hour)))) 2)
     ''X-Cache'' = [''HIT'']"
  unfolding ex_tagged_serve
  by (simp add: cells_copyHeader_other captured_heap_def make_Header_def run_init_def
      newCache_def index_def eval_nat_numeral del: copyHeader.simps)

end
